(* ===== verification/Engine_Types.thy ===== *)
theory Engine_Types
  imports Prelude Complex_Main
begin

text \<open>
  The data of \<open>inference/engine.py\<close>: the urgency and state enumerations, the result,
  chunk and status records, and the cached-token reading of a request output.
\<close>

section \<open>Enumerations\<close>

text \<open>\<open>YieldUrgency\<close>, an \<open>IntEnum\<close>.\<close>

datatype yield_urgency = NORMAL | IMMEDIATE

fun urgency_value :: "yield_urgency \<Rightarrow> int" where
  "urgency_value NORMAL = 0"
| "urgency_value IMMEDIATE = 1"

text \<open>An \<open>IntEnum\<close> is ordered by its values.\<close>

instantiation yield_urgency :: linorder
begin

definition less_eq_yield_urgency :: "yield_urgency \<Rightarrow> yield_urgency \<Rightarrow> bool" where
  "less_eq_yield_urgency u v \<longleftrightarrow> urgency_value u \<le> urgency_value v"

definition less_yield_urgency :: "yield_urgency \<Rightarrow> yield_urgency \<Rightarrow> bool" where
  "less_yield_urgency u v \<longleftrightarrow> urgency_value u < urgency_value v"

lemma urgency_value_inj: "urgency_value u = urgency_value v \<Longrightarrow> u = v"
  by (cases u; cases v) simp_all

instance
  by standard
    (auto simp: less_eq_yield_urgency_def less_yield_urgency_def dest: urgency_value_inj)

end

text \<open>\<open>EngineState\<close> and its string values.\<close>

datatype engine_state =
  STOPPED | STARTING | RUNNING | UNLOADING | PAUSED | LOADING | STOPPING | DEAD

fun state_value :: "engine_state \<Rightarrow> string" where
  "state_value STOPPED = ''stopped''"
| "state_value STARTING = ''starting''"
| "state_value RUNNING = ''running''"
| "state_value UNLOADING = ''unloading''"
| "state_value PAUSED = ''paused''"
| "state_value LOADING = ''loading''"
| "state_value STOPPING = ''stopping''"
| "state_value DEAD = ''dead''"

text \<open>The enumeration is finite, so quantifiers over the engine states compute.\<close>

instantiation engine_state :: enum
begin

definition enum_engine_state :: "engine_state list" where
  "enum_engine_state = [STOPPED, STARTING, RUNNING, UNLOADING, PAUSED, LOADING, STOPPING, DEAD]"

definition enum_all_engine_state :: "(engine_state \<Rightarrow> bool) \<Rightarrow> bool" where
  "enum_all_engine_state P \<longleftrightarrow> list_all P enum_class.enum"

definition enum_ex_engine_state :: "(engine_state \<Rightarrow> bool) \<Rightarrow> bool" where
  "enum_ex_engine_state P \<longleftrightarrow> list_ex P enum_class.enum"

instance
proof
  show U: "(UNIV :: engine_state set) = set enum_class.enum"
  proof
    show "(UNIV :: engine_state set) \<subseteq> set enum_class.enum"
    proof
      fix x :: engine_state
      show "x \<in> set enum_class.enum" by (cases x) (simp_all add: enum_engine_state_def)
    qed
  qed simp
  show "distinct (enum_class.enum :: engine_state list)"
    by (simp add: enum_engine_state_def)
  fix P :: "engine_state \<Rightarrow> bool"
  show "enum_class.enum_all P \<longleftrightarrow> Ball UNIV P"
    unfolding U by (simp add: enum_all_engine_state_def list_all_iff)
  show "enum_class.enum_ex P \<longleftrightarrow> Bex UNIV P"
    unfolding U by (simp add: enum_ex_engine_state_def list_ex_iff)
qed

end

lemma state_value_inj: "state_value s = state_value t \<Longrightarrow> s = t"
  by (cases s; cases t) simp_all

section \<open>Results, chunks and status\<close>

record generate_result =
  gr_text :: string
  gr_prompt_tokens :: int
  gr_completion_tokens :: int
  gr_finish_reason :: string
  gr_cached_tokens :: int

record stream_chunk =
  sc_text_delta :: string
  sc_finish_reason :: "string option"
  sc_prompt_tokens :: int
  sc_completion_tokens :: int
  sc_cached_tokens :: int

text \<open>\<open>StreamChunk(text_delta=delta)\<close>: the defaults of the other fields.\<close>

definition delta_chunk :: "string \<Rightarrow> stream_chunk" where
  "delta_chunk d = \<lparr>sc_text_delta = d, sc_finish_reason = None, sc_prompt_tokens = 0,
     sc_completion_tokens = 0, sc_cached_tokens = 0\<rparr>"

record engine_status =
  es_state :: engine_state
  es_active_requests :: int
  es_gpu_utilization_pct :: rat
  es_loaded_model :: string
  es_gpu_id :: int

section \<open>Cached prompt tokens\<close>

text \<open>
  \<open>getattr(request_output, "num_cached_tokens", None)\<close>: missing or \<open>None\<close>, a value
  that \<open>int()\<close> converts, or one for which \<open>int()\<close> raises \<open>TypeError\<close> or
  \<open>ValueError\<close>.
\<close>

datatype cached_attr = NoAttr | AttrInt int | AttrBad

definition extract_cached_tokens :: "cached_attr \<Rightarrow> int \<Rightarrow> int" where
  "extract_cached_tokens attr prompt_tokens =
     (case attr of
        NoAttr \<Rightarrow> 0
      | AttrBad \<Rightarrow> 0
      | AttrInt n \<Rightarrow>
          if n < 0 then 0
          else if prompt_tokens \<noteq> 0 \<and> n > prompt_tokens then prompt_tokens
          else n)"

lemma extract_cached_tokens_bounds:
  "0 < p \<Longrightarrow> 0 \<le> extract_cached_tokens a p \<and> extract_cached_tokens a p \<le> p"
  by (auto simp: extract_cached_tokens_def split: cached_attr.splits)

lemma extract_cached_tokens_nonneg:
  "0 \<le> p \<Longrightarrow> 0 \<le> extract_cached_tokens a p"
  by (auto simp: extract_cached_tokens_def split: cached_attr.splits)

section \<open>What a failed request raises\<close>

definition stall_error :: py_exn where
  "stall_error =
     RuntimeError ''engine stalled - no output; request failed, retry on another worker''"

definition paused_error :: py_exn where
  "paused_error = RuntimeError ''Engine paused during generation - request aborted''"

definition unavailable_error :: py_exn where
  "unavailable_error = RuntimeError ''Engine not available - GPU yielded to mining''"

definition core_died_error :: py_exn where
  "core_died_error =
     RuntimeError ''engine core died - request failed, retry on another worker''"

definition no_output_error :: py_exn where
  "no_output_error = RuntimeError ''vLLM returned no output''"

lemmas request_errors =
  stall_error_def paused_error_def unavailable_error_def core_died_error_def no_output_error_def

end
