(* ===== verification/Engine.thy ===== *)
theory Engine
  imports Engine_Types
begin

text \<open>
  \<open>VLLMEngine\<close> of \<open>inference/engine.py\<close> as a system of asyncio coroutines.

  The event loop is single-threaded: a coroutine runs without interruption from one
  suspension point (an \<open>await\<close> that really suspends) to the next.  Each coroutine is
  a program counter \<open>pc\<close> naming the suspension point it waits at, and each definition
  below is one uninterrupted section of the code, on the engine record \<open>vllm\<close> and the
  process state \<open>sys\<close>.  \<open>step\<close> resumes one coroutine; \<open>fire\<close>
  interleaves any number of coroutines and new calls.

  The transition lock is a field that holds the owner; a waiter may take it whenever it is
  free.  asyncio hands it over first in, first out, so every schedule of the code is a
  schedule of the model.
\<close>

section \<open>State\<close>

record vllm =
  e_state :: engine_state
  e_engine :: "nat option"                   \<comment> \<open>the core handle, \<open>None\<close> when destroyed\<close>
  e_model :: string
  e_gpu_memory_utilization :: rat
  e_max_model_len :: int
  e_tensor_parallel_size :: int
  e_device_ids :: "int list option"
  e_enforce_eager :: bool
  e_active_requests :: int
  e_inflight :: "string list"                \<comment> \<open>a set: insertion keeps it free of duplicates\<close>
  e_lock :: "nat option"                     \<comment> \<open>holder of \<open>_transition_lock\<close>\<close>
  e_pending_pause :: "yield_urgency option"
  e_pending_resume :: bool
  e_child_pids :: "int list"
  e_accepting :: bool
  e_recovering :: bool

text \<open>\<open>VLLMEngine.__init__\<close>.\<close>

definition vllm_init :: "rat \<Rightarrow> int \<Rightarrow> int \<Rightarrow> int list option \<Rightarrow> bool \<Rightarrow> vllm" where
  "vllm_init util max_len tp devs eager =
     \<lparr>e_state = STOPPED, e_engine = None, e_model = '''', e_gpu_memory_utilization = util,
      e_max_model_len = max_len, e_tensor_parallel_size = tp, e_device_ids = devs,
      e_enforce_eager = eager, e_active_requests = 0, e_inflight = [], e_lock = None,
      e_pending_pause = None, e_pending_resume = False, e_child_pids = [],
      e_accepting = True, e_recovering = False\<rparr>"

text \<open>\<open>is_available\<close>, \<open>current_model\<close> and \<open>status\<close>.\<close>

definition is_available :: "vllm \<Rightarrow> bool" where
  "is_available e \<longleftrightarrow> e_state e = RUNNING \<and> e_accepting e"

definition current_model :: "vllm \<Rightarrow> string" where
  "current_model e = e_model e"

definition status :: "vllm \<Rightarrow> engine_status" where
  "status e =
     \<lparr>es_state = e_state e, es_active_requests = e_active_requests e,
      es_gpu_utilization_pct = 0, es_loaded_model = e_model e,
      es_gpu_id = (case e_device_ids e of Some [d] \<Rightarrow> d | _ \<Rightarrow> -1)\<rparr>"

section \<open>Coroutines\<close>

text \<open>
  Where a coroutine that awaited another one of this class goes on when that one returns:
  nowhere (it was called from outside), into \<open>switch_model\<close> after its \<open>pause\<close>
  (new and old model) or after its \<open>resume\<close>, or into the \<open>finally\<close> of
  \<open>_recover_dead_engine\<close>.
\<close>

datatype kont = KRet | KSwitchPaused string string | KSwitchResumed | KRecover

text \<open>What follows \<open>_destroy_engine\<close>, which always runs with the lock held.\<close>

datatype after_destroy = AfterStart | AfterPause kont | AfterReload kont | AfterStop | AfterRecover

text \<open>The suspension points, coroutine by coroutine, and the two ways to finish.\<close>

datatype pc =
    Idle
  | StartEntry string | StartCreate | StartFailed py_exn | StartLoaded
  | PauseEntry yield_urgency kont | PauseDrain kont | PauseDrained kont | PauseTeardown kont
  | ResumeEntry kont
  | Reload nat kont | ReloadRetry nat kont | ReloadLoaded kont | ReloadExhausted kont | Exiting
  | StopEntry
  | SwitchEntry string | SwitchDrain string string
  | RecoverEntry
  | DestroyAbort "string list" after_destroy
  | DestroyWait "int list" after_destroy
  | DestroyRelease after_destroy
  | GenEntry string bool | Generating string bool    \<comment> \<open>request id, streaming\<close>
  | Returned | Raised py_exn

record sys =
  eng :: vllm
  pcs :: "nat \<Rightarrow> pc"
  cuda_visible :: "string option"    \<comment> \<open>\<open>os.environ["CUDA_VISIBLE_DEVICES"]\<close>\<close>
  kills :: "int list"                \<comment> \<open>pids sent SIGKILL, oldest first\<close>
  exited :: bool                     \<comment> \<open>\<open>os._exit\<close> was called\<close>

text \<open>
  What the world decides when a coroutine resumes: nothing, that the vLLM engine came up
  (its handle and the scans of \<open>multiprocessing.active_children()\<close> before and after,
  \<open>None\<close> where the scan raised) or failed, which of the recorded pids are still alive,
  that a token arrived, that the stream ended (with or without any output), that no token came
  within the stall limit, that the core died (the recovery task gets the given id), or
  that the request failed with another exception.
\<close>

datatype choice =
    Go
  | CreateOk nat "int list option" "int list option"
  | CreateErr py_exn
  | Alive "int list"
  | Token | StreamEnd bool | Stall | CoreDied nat | ReqFailed py_exn

definition goto :: "nat \<Rightarrow> pc \<Rightarrow> sys \<Rightarrow> sys" where
  "goto i p s = s\<lparr>pcs := (pcs s)(i := p)\<rparr>"

definition upd :: "(vllm \<Rightarrow> vllm) \<Rightarrow> sys \<Rightarrow> sys" where
  "upd f s = s\<lparr>eng := f (eng s)\<rparr>"

lemma upd_sel [simp]:
  "eng (upd f s) = f (eng s)" "pcs (upd f s) = pcs s" "cuda_visible (upd f s) = cuda_visible s"
  "kills (upd f s) = kills s" "exited (upd f s) = exited s"
  by (simp_all add: upd_def)

lemma goto_sel [simp]:
  "eng (goto i p s) = eng s" "pcs (goto i p s) = (pcs s)(i := p)"
  "cuda_visible (goto i p s) = cuda_visible s"
  "kills (goto i p s) = kills s" "exited (goto i p s) = exited s"
  by (simp_all add: goto_def)

subsection \<open>Returning to the caller\<close>

definition return_to :: "nat \<Rightarrow> kont \<Rightarrow> sys \<Rightarrow> sys" where
  "return_to i k s =
     (case k of
        KRet \<Rightarrow> goto i Returned s
      | KSwitchPaused new old \<Rightarrow>
          goto i (ResumeEntry KSwitchResumed) (upd (\<lambda>e. e\<lparr>e_model := new\<rparr>) s)
      | KSwitchResumed \<Rightarrow> goto i Returned (upd (\<lambda>e. e\<lparr>e_accepting := True\<rparr>) s)
      | KRecover \<Rightarrow> goto i Returned (upd (\<lambda>e. e\<lparr>e_recovering := False\<rparr>) s))"

subsection \<open>\<open>_create_engine\<close>\<close>

text \<open>
  The environment variable is written before the engine is built; the pids that appear
  between the two scans become this engine's children.
\<close>

definition cuda_devices :: "int list \<Rightarrow> string" where
  "cuda_devices ds = join_with '','' (map str_int ds)"

definition set_cuda_visible :: "sys \<Rightarrow> sys" where
  "set_cuda_visible s =
     (case e_device_ids (eng s) of
        None \<Rightarrow> s
      | Some ds \<Rightarrow> s\<lparr>cuda_visible := Some (cuda_devices ds)\<rparr>)"

definition child_delta :: "int list option \<Rightarrow> int list option \<Rightarrow> int list" where
  "child_delta before after =
     (case after of
        None \<Rightarrow> []
      | Some a \<Rightarrow> filter (\<lambda>p. p \<notin> set (case before of None \<Rightarrow> [] | Some b \<Rightarrow> b)) (remdups a))"

definition engine_created :: "nat \<Rightarrow> int list option \<Rightarrow> int list option \<Rightarrow> sys \<Rightarrow> sys" where
  "engine_created h before after s =
     upd (\<lambda>e. e\<lparr>e_engine := Some h, e_child_pids := child_delta before after\<rparr>)
       (set_cuda_visible s)"

text \<open>
  The construction itself has no suspension point: once the class-wide creation lock is
  taken, the scans, the variable and the constructor run as one section.
\<close>

subsection \<open>\<open>_destroy_engine\<close>\<close>

text \<open>What the caller does with the lock still held, up to its release.\<close>

definition after_destroyed :: "nat \<Rightarrow> after_destroy \<Rightarrow> sys \<Rightarrow> sys" where
  "after_destroyed i d s =
     (case d of
        AfterStart \<Rightarrow>
          goto i Returned (upd (\<lambda>e. e\<lparr>e_state := PAUSED, e_lock := None\<rparr>) s)
      | AfterPause k \<Rightarrow>
          (if e_pending_resume (eng s)
           then goto i (Reload 1 k)
                  (upd (\<lambda>e. e\<lparr>e_accepting := True, e_pending_resume := False,
                              e_state := LOADING, e_lock := None\<rparr>) s)
           else return_to i k
                  (upd (\<lambda>e. e\<lparr>e_accepting := True, e_state := PAUSED, e_lock := None\<rparr>) s))
      | AfterReload k \<Rightarrow>
          return_to i k (upd (\<lambda>e. e\<lparr>e_state := PAUSED, e_lock := None\<rparr>) s)
      | AfterStop \<Rightarrow>
          goto i Returned (upd (\<lambda>e. e\<lparr>e_state := STOPPED, e_lock := None\<rparr>) s)
      | AfterRecover \<Rightarrow>
          goto i (Reload 1 KRecover) (upd (\<lambda>e. e\<lparr>e_state := LOADING, e_lock := None\<rparr>) s))"

text \<open>Entering it: an engine that is already gone needs no teardown.\<close>

definition begin_destroy :: "nat \<Rightarrow> after_destroy \<Rightarrow> sys \<Rightarrow> sys" where
  "begin_destroy i d s =
     (if e_engine (eng s) = None then after_destroyed i d s
      else goto i (DestroyAbort (e_inflight (eng s)) d) s)"

text \<open>
  After the aborts: the in-flight set is cleared, the recorded child pids are copied, the
  handle is dropped; with children to reap the coroutine sleeps 5 seconds.
\<close>

definition destroy_shutdown :: "nat \<Rightarrow> after_destroy \<Rightarrow> sys \<Rightarrow> sys" where
  "destroy_shutdown i d s =
     (let pids = e_child_pids (eng s);
          s' = upd (\<lambda>e. e\<lparr>e_inflight := [], e_engine := None\<rparr>) s in
      if pids \<noteq> [] then goto i (DestroyWait pids d) s'
      else after_destroyed i d (upd (\<lambda>e. e\<lparr>e_child_pids := []\<rparr>) s'))"

text \<open>Only the copied pids are probed, and those still alive are killed.\<close>

definition destroy_kill :: "nat \<Rightarrow> int list \<Rightarrow> int list \<Rightarrow> after_destroy \<Rightarrow> sys \<Rightarrow> sys" where
  "destroy_kill i alive pids d s =
     goto i (DestroyRelease d)
       (s\<lparr>kills := kills s @ filter (\<lambda>p. p \<in> set alive) pids\<rparr>)"

definition destroy_release :: "nat \<Rightarrow> after_destroy \<Rightarrow> sys \<Rightarrow> sys" where
  "destroy_release i d s = after_destroyed i d (upd (\<lambda>e. e\<lparr>e_child_pids := []\<rparr>) s)"

definition take_lock :: "nat \<Rightarrow> sys \<Rightarrow> sys" where
  "take_lock i s = upd (\<lambda>e. e\<lparr>e_lock := Some i\<rparr>) s"

lemma take_lock_sel [simp]:
  "eng (take_lock i s) = (eng s)\<lparr>e_lock := Some i\<rparr>" "pcs (take_lock i s) = pcs s"
  "kills (take_lock i s) = kills s" "exited (take_lock i s) = exited s"
  by (simp_all add: take_lock_def)

text \<open>
  \<open>begin_destroy\<close> may finish at once, and then releases the lock it was given; so the
  sections below take the lock first and call it.
\<close>

subsection \<open>\<open>start\<close>\<close>

definition start_entry :: "nat \<Rightarrow> string \<Rightarrow> sys \<Rightarrow> sys" where
  "start_entry i path s =
     goto i StartCreate
       (upd (\<lambda>e. e\<lparr>e_state := STARTING, e_accepting := True, e_model := path\<rparr>) s)"

definition start_failed :: "nat \<Rightarrow> py_exn \<Rightarrow> sys \<Rightarrow> sys" where
  "start_failed i err s =
     goto i (Raised err) (upd (\<lambda>e. e\<lparr>e_state := STOPPED, e_pending_pause := None\<rparr>) s)"

definition start_loaded :: "nat \<Rightarrow> sys \<Rightarrow> sys" where
  "start_loaded i s =
     (case e_pending_pause (eng s) of
        Some u \<Rightarrow>
          begin_destroy i AfterStart
            (upd (\<lambda>e. e\<lparr>e_pending_pause := None\<rparr>) (take_lock i s))
      | None \<Rightarrow> goto i Returned (upd (\<lambda>e. e\<lparr>e_state := RUNNING\<rparr>) s))"

subsection \<open>\<open>pause\<close>\<close>

definition pause_entry :: "nat \<Rightarrow> yield_urgency \<Rightarrow> kont \<Rightarrow> sys \<Rightarrow> sys" where
  "pause_entry i u k s =
     (if e_state (eng s) \<in> {LOADING, STARTING}
      then return_to i k (upd (\<lambda>e. e\<lparr>e_pending_pause := Some u\<rparr>) s)
      else if e_state (eng s) \<noteq> RUNNING then return_to i k s
      else if u = NORMAL
      then goto i (PauseDrain k) (upd (\<lambda>e. e\<lparr>e_accepting := False\<rparr>) s)
      else goto i (PauseTeardown k) (upd (\<lambda>e. e\<lparr>e_state := UNLOADING\<rparr>) s))"

text \<open>After the drain, which ends when no request is left or at its time limit.\<close>

definition pause_drained :: "nat \<Rightarrow> kont \<Rightarrow> sys \<Rightarrow> sys" where
  "pause_drained i k s =
     (if e_state (eng s) \<noteq> RUNNING then return_to i k s
      else goto i (PauseTeardown k) (upd (\<lambda>e. e\<lparr>e_state := UNLOADING\<rparr>) s))"

definition pause_teardown :: "nat \<Rightarrow> kont \<Rightarrow> sys \<Rightarrow> sys" where
  "pause_teardown i k s = begin_destroy i (AfterPause k) (take_lock i s)"

subsection \<open>\<open>resume\<close> and \<open>_do_reload\<close>\<close>

definition resume_entry :: "nat \<Rightarrow> kont \<Rightarrow> sys \<Rightarrow> sys" where
  "resume_entry i k s =
     (if e_state (eng s) = UNLOADING
      then return_to i k (upd (\<lambda>e. e\<lparr>e_pending_resume := True\<rparr>) s)
      else if e_state (eng s) = DEAD then return_to i k s
      else if e_state (eng s) \<noteq> PAUSED then return_to i k s
      else goto i (Reload 1 k) (upd (\<lambda>e. e\<lparr>e_state := LOADING\<rparr>) s))"

definition max_attempts :: nat where
  "max_attempts = 3"

text \<open>A failed attempt: retry after a delay, or give up after the last one.\<close>

definition reload_failed :: "nat \<Rightarrow> nat \<Rightarrow> kont \<Rightarrow> sys \<Rightarrow> sys" where
  "reload_failed i attempt k s =
     (if attempt < max_attempts
      then goto i (ReloadRetry (attempt + 1) k) (upd (\<lambda>e. e\<lparr>e_engine := None\<rparr>) s)
      else goto i (ReloadExhausted k) s)"

definition reload_loaded :: "nat \<Rightarrow> kont \<Rightarrow> sys \<Rightarrow> sys" where
  "reload_loaded i k s =
     (case e_pending_pause (eng s) of
        Some u \<Rightarrow>
          begin_destroy i (AfterReload k)
            (upd (\<lambda>e. e\<lparr>e_pending_pause := None\<rparr>) (take_lock i s))
      | None \<Rightarrow> return_to i k (upd (\<lambda>e. e\<lparr>e_state := RUNNING\<rparr>) s))"

definition reload_exhausted :: "nat \<Rightarrow> sys \<Rightarrow> sys" where
  "reload_exhausted i s =
     goto i Exiting (upd (\<lambda>e. e\<lparr>e_pending_pause := None, e_state := PAUSED\<rparr>) s)"

subsection \<open>\<open>stop\<close> and \<open>switch_model\<close>\<close>

definition stop_entry :: "nat \<Rightarrow> sys \<Rightarrow> sys" where
  "stop_entry i s =
     begin_destroy i AfterStop (upd (\<lambda>e. e\<lparr>e_state := STOPPING\<rparr>) (take_lock i s))"

definition switch_entry :: "nat \<Rightarrow> string \<Rightarrow> sys \<Rightarrow> sys" where
  "switch_entry i new s =
     (if e_model (eng s) = new \<and> e_state (eng s) = RUNNING then goto i Returned s
      else goto i (SwitchDrain new (e_model (eng s)))
             (upd (\<lambda>e. e\<lparr>e_accepting := False\<rparr>) s))"

definition switch_drained :: "nat \<Rightarrow> string \<Rightarrow> string \<Rightarrow> sys \<Rightarrow> sys" where
  "switch_drained i new old s = goto i (PauseEntry NORMAL (KSwitchPaused new old)) s"

subsection \<open>\<open>_mark_dead\<close> and \<open>_recover_dead_engine\<close>\<close>

definition is_engine_dead_error :: "string \<Rightarrow> bool" where
  "is_engine_dead_error type_name \<longleftrightarrow> str_contains ''enginedead'' (lower type_name)"

text \<open>The recovery coroutine is scheduled as task \<open>j\<close>, unless one is under way.\<close>

definition mark_dead :: "nat \<Rightarrow> sys \<Rightarrow> sys" where
  "mark_dead j s =
     (if e_recovering (eng s) then upd (\<lambda>e. e\<lparr>e_state := DEAD\<rparr>) s
      else goto j RecoverEntry (upd (\<lambda>e. e\<lparr>e_state := DEAD, e_recovering := True\<rparr>) s))"

definition recover_entry :: "nat \<Rightarrow> sys \<Rightarrow> sys" where
  "recover_entry i s =
     (if e_state (eng s) \<noteq> DEAD
      then goto i Returned (upd (\<lambda>e. e\<lparr>e_recovering := False\<rparr>) s)
      else begin_destroy i AfterRecover (take_lock i s))"

subsection \<open>\<open>generate\<close> and \<open>generate_stream\<close>: their effect on the engine\<close>

definition gen_entry :: "nat \<Rightarrow> string \<Rightarrow> bool \<Rightarrow> sys \<Rightarrow> sys" where
  "gen_entry i rid streaming s =
     (if is_available (eng s)
      then goto i (Generating rid streaming)
             (upd (\<lambda>e. e\<lparr>e_active_requests := e_active_requests e + 1,
                         e_inflight := List.insert rid (e_inflight e)\<rparr>) s)
      else goto i (Raised unavailable_error)  s)"

text \<open>The \<open>finally\<close> block.\<close>

definition gen_finally :: "string \<Rightarrow> sys \<Rightarrow> sys" where
  "gen_finally rid s =
     upd (\<lambda>e. e\<lparr>e_active_requests := e_active_requests e - 1,
                e_inflight := removeAll rid (e_inflight e)\<rparr>) s"

definition gen_raised :: "nat \<Rightarrow> string \<Rightarrow> py_exn \<Rightarrow> sys \<Rightarrow> sys" where
  "gen_raised i rid err s = goto i (Raised err) (gen_finally rid s)"

text \<open>A token: the request aborts itself when the engine no longer runs.\<close>

definition gen_token :: "nat \<Rightarrow> string \<Rightarrow> sys \<Rightarrow> sys" where
  "gen_token i rid s =
     (if e_state (eng s) \<noteq> RUNNING
      then gen_raised i rid paused_error s
      else s)"

text \<open>The end of the stream: without any output, \<open>generate\<close> raises and
  \<open>generate_stream\<close> just returns.\<close>

definition gen_end :: "nat \<Rightarrow> string \<Rightarrow> bool \<Rightarrow> bool \<Rightarrow> sys \<Rightarrow> sys" where
  "gen_end i rid streaming had_output s =
     (if had_output \<or> streaming then goto i Returned (gen_finally rid s)
      else gen_raised i rid no_output_error s)"

text \<open>An exception of type \<open>type_name\<close>: a dead core is marked, anything else re-raised.\<close>

definition gen_core_died :: "nat \<Rightarrow> string \<Rightarrow> nat \<Rightarrow> sys \<Rightarrow> sys" where
  "gen_core_died i rid j s =
     gen_raised i rid core_died_error (mark_dead j s)"

section \<open>One step of one coroutine\<close>

definition lock_free :: "sys \<Rightarrow> bool" where
  "lock_free s \<longleftrightarrow> e_lock (eng s) = None"

text \<open>
  Resuming task \<open>i\<close> with the world's choice \<open>c\<close>; \<open>None\<close> when it cannot run (it waits
  for the lock, it has ended, or the choice does not concern it).  A section guarded by
  \<open>async with self._transition_lock\<close> runs only while the lock is free; the
  \<open>Destroy\<close> points run with the lock held by their own task.
\<close>

definition step :: "nat \<Rightarrow> choice \<Rightarrow> sys \<Rightarrow> sys option" where
  "step i c s =
     (if exited s then None else
      case pcs s i of
        Idle \<Rightarrow> None
      | Returned \<Rightarrow> None
      | Raised x \<Rightarrow> None
      | StartEntry path \<Rightarrow> if c = Go \<and> lock_free s then Some (start_entry i path s) else None
      | StartCreate \<Rightarrow>
          (case c of
             CreateOk h b a \<Rightarrow> Some (goto i StartLoaded (engine_created h b a s))
           | CreateErr x \<Rightarrow> Some (goto i (StartFailed x) (set_cuda_visible s))
           | _ \<Rightarrow> None)
      | StartFailed x \<Rightarrow> if c = Go \<and> lock_free s then Some (start_failed i x s) else None
      | StartLoaded \<Rightarrow> if c = Go \<and> lock_free s then Some (start_loaded i s) else None
      | PauseEntry u k \<Rightarrow> if c = Go \<and> lock_free s then Some (pause_entry i u k s) else None
      | PauseDrain k \<Rightarrow> if c = Go then Some (goto i (PauseDrained k) s) else None
      | PauseDrained k \<Rightarrow> if c = Go \<and> lock_free s then Some (pause_drained i k s) else None
      | PauseTeardown k \<Rightarrow> if c = Go \<and> lock_free s then Some (pause_teardown i k s) else None
      | ResumeEntry k \<Rightarrow> if c = Go \<and> lock_free s then Some (resume_entry i k s) else None
      | Reload n k \<Rightarrow>
          (case c of
             CreateOk h b a \<Rightarrow> Some (goto i (ReloadLoaded k) (engine_created h b a s))
           | CreateErr x \<Rightarrow> Some (reload_failed i n k (set_cuda_visible s))
           | _ \<Rightarrow> None)
      | ReloadRetry n k \<Rightarrow> if c = Go then Some (goto i (Reload n k) s) else None
      | ReloadLoaded k \<Rightarrow> if c = Go \<and> lock_free s then Some (reload_loaded i k s) else None
      | ReloadExhausted k \<Rightarrow> if c = Go \<and> lock_free s then Some (reload_exhausted i s) else None
      | Exiting \<Rightarrow> if c = Go then Some (s\<lparr>exited := True\<rparr>) else None
      | StopEntry \<Rightarrow> if c = Go \<and> lock_free s then Some (stop_entry i s) else None
      | SwitchEntry new \<Rightarrow> if c = Go then Some (switch_entry i new s) else None
      | SwitchDrain new old \<Rightarrow> if c = Go then Some (switch_drained i new old s) else None
      | RecoverEntry \<Rightarrow> if c = Go \<and> lock_free s then Some (recover_entry i s) else None
      | DestroyAbort rs d \<Rightarrow>
          if c \<noteq> Go then None
          else (case rs of
                  [] \<Rightarrow> Some (destroy_shutdown i d s)
                | r # rs' \<Rightarrow> Some (goto i (DestroyAbort rs' d) s))
      | DestroyWait pids d \<Rightarrow>
          (case c of Alive alive \<Rightarrow> Some (destroy_kill i alive pids d s) | _ \<Rightarrow> None)
      | DestroyRelease d \<Rightarrow> if c = Go then Some (destroy_release i d s) else None
      | GenEntry rid str \<Rightarrow> if c = Go then Some (gen_entry i rid str s) else None
      | Generating rid str \<Rightarrow>
          (case c of
             Token \<Rightarrow> Some (gen_token i rid s)
           | StreamEnd out \<Rightarrow> Some (gen_end i rid str out s)
           | Stall \<Rightarrow> Some (gen_raised i rid stall_error s)
           | CoreDied j \<Rightarrow>
               if pcs s j = Idle then Some (gen_core_died i rid j s) else None
           | ReqFailed x \<Rightarrow> Some (gen_raised i rid x s)
           | _ \<Rightarrow> None))"

text \<open>The calls that come from outside: the public methods of the class.\<close>

datatype command =
    CStart string | CPause yield_urgency | CResume | CStop | CSwitch string
  | CGenerate string bool

fun entry :: "command \<Rightarrow> pc" where
  "entry (CStart path) = StartEntry path"
| "entry (CPause u) = PauseEntry u KRet"
| "entry CResume = ResumeEntry KRet"
| "entry CStop = StopEntry"
| "entry (CSwitch new) = SwitchEntry new"
| "entry (CGenerate rid str) = GenEntry rid str"

datatype label = LCall nat command | LRun nat choice

fun fire :: "label \<Rightarrow> sys \<Rightarrow> sys option" where
  "fire (LCall i cmd) s =
     (if \<not> exited s \<and> pcs s i = Idle then Some (goto i (entry cmd) s) else None)"
| "fire (LRun i c) s = step i c s"

fun execute :: "label list \<Rightarrow> sys \<Rightarrow> sys option" where
  "execute [] s = Some s"
| "execute (l # ls) s = (case fire l s of None \<Rightarrow> None | Some t \<Rightarrow> execute ls t)"

text \<open>Reachability under an environment that only fires labels it allows.\<close>

inductive reachable :: "(sys \<Rightarrow> label \<Rightarrow> bool) \<Rightarrow> sys \<Rightarrow> sys \<Rightarrow> bool"
  for ok :: "sys \<Rightarrow> label \<Rightarrow> bool" and s0 :: sys where
  reach_init: "reachable ok s0 s0"
| reach_step: "reachable ok s0 s \<Longrightarrow> ok s l \<Longrightarrow> fire l s = Some t \<Longrightarrow> reachable ok s0 t"

lemma reachable_trans: "reachable ok s t \<Longrightarrow> reachable ok t u \<Longrightarrow> reachable ok s u"
  by (rotate_tac, induction rule: reachable.induct) (auto intro: reach_step)

fun allowed :: "(sys \<Rightarrow> label \<Rightarrow> bool) \<Rightarrow> label list \<Rightarrow> sys \<Rightarrow> bool" where
  "allowed ok [] s = True"
| "allowed ok (l # ls) s = (ok s l \<and> (case fire l s of None \<Rightarrow> False | Some t \<Rightarrow> allowed ok ls t))"

lemma execute_reachable:
  "allowed ok ls s \<Longrightarrow> execute ls s = Some t \<Longrightarrow> reachable ok s t"
proof (induction ls arbitrary: s)
  case Nil
  then show ?case by (simp add: reach_init)
next
  case (Cons l ls)
  then obtain u where u: "fire l s = Some u" "ok s l" "allowed ok ls u" "execute ls u = Some t"
    by (auto split: option.splits)
  then have "reachable ok s u" by (blast intro: reach_init reach_step)
  moreover from u Cons.IH have "reachable ok u t" by blast
  ultimately show ?case by (rule reachable_trans)
qed

text \<open>
  The two ways \<open>main.py\<close> brings the engine up: one call of \<open>start\<close>, or, when the
  scheduler says the GPU is taken, the record of \<open>start_paused\<close>.
\<close>

definition sys_of :: "vllm \<Rightarrow> sys" where
  "sys_of e = \<lparr>eng = e, pcs = (\<lambda>_. Idle), cuda_visible = None, kills = [], exited = False\<rparr>"

definition start_paused_engine :: "string \<Rightarrow> vllm \<Rightarrow> vllm" where
  "start_paused_engine path e = e\<lparr>e_model := path, e_state := PAUSED\<rparr>"

definition boot_start :: "string \<Rightarrow> vllm \<Rightarrow> sys" where
  "boot_start path e = goto 0 (StartEntry path) (sys_of e)"

definition boot_paused :: "string \<Rightarrow> vllm \<Rightarrow> sys" where
  "boot_paused path e = sys_of (start_paused_engine path e)"

end
