(* ===== verification/Engine_Inv.thy ===== *)
theory Engine_Inv
  imports Engine
begin

text \<open>
  Invariants of the engine's coroutines.  The executable \<open>step\<close> is shown equal to the
  inductive relation \<open>cstep\<close>, one rule per section; the invariants go by cases on it.

  \<^item> Under every environment: the lock and the teardown exclude each other's coroutines
    (\<open>lock_inv\<close>), and the request counter counts the requests in flight (\<open>count_inv\<close>).
  \<^item> Under a \<open>benign\<close> environment (no shutdown during operation, core deaths reported
    only while the engine serves): one coroutine at a time owns a transition, and the
    engine's handle, child pids and pending flags agree with its state (\<open>life_inv\<close>).
\<close>

section \<open>The steps as a relation\<close>

inductive cstep :: "nat \<Rightarrow> choice \<Rightarrow> sys \<Rightarrow> sys \<Rightarrow> bool" where
CStartEntry: "\<not> exited s \<Longrightarrow> pcs s i = StartEntry path \<Longrightarrow> lock_free s \<Longrightarrow>
     cstep i Go s (start_entry i path s)"
| CStartCreateOk: "\<not> exited s \<Longrightarrow> pcs s i = StartCreate \<Longrightarrow>
     cstep i (CreateOk h b a) s (goto i StartLoaded (engine_created h b a s))"
| CStartCreateErr: "\<not> exited s \<Longrightarrow> pcs s i = StartCreate \<Longrightarrow>
     cstep i (CreateErr x) s (goto i (StartFailed x) (set_cuda_visible s))"
| CStartFailed: "\<not> exited s \<Longrightarrow> pcs s i = StartFailed x \<Longrightarrow> lock_free s \<Longrightarrow>
     cstep i Go s (start_failed i x s)"
| CStartLoaded: "\<not> exited s \<Longrightarrow> pcs s i = StartLoaded \<Longrightarrow> lock_free s \<Longrightarrow>
     cstep i Go s (start_loaded i s)"
| CPauseEntry: "\<not> exited s \<Longrightarrow> pcs s i = PauseEntry u k \<Longrightarrow> lock_free s \<Longrightarrow>
     cstep i Go s (pause_entry i u k s)"
| CPauseDrain: "\<not> exited s \<Longrightarrow> pcs s i = PauseDrain k \<Longrightarrow>
     cstep i Go s (goto i (PauseDrained k) s)"
| CPauseDrained: "\<not> exited s \<Longrightarrow> pcs s i = PauseDrained k \<Longrightarrow> lock_free s \<Longrightarrow>
     cstep i Go s (pause_drained i k s)"
| CPauseTeardown: "\<not> exited s \<Longrightarrow> pcs s i = PauseTeardown k \<Longrightarrow> lock_free s \<Longrightarrow>
     cstep i Go s (pause_teardown i k s)"
| CResumeEntry: "\<not> exited s \<Longrightarrow> pcs s i = ResumeEntry k \<Longrightarrow> lock_free s \<Longrightarrow>
     cstep i Go s (resume_entry i k s)"
| CReloadOk: "\<not> exited s \<Longrightarrow> pcs s i = Reload n k \<Longrightarrow>
     cstep i (CreateOk h b a) s (goto i (ReloadLoaded k) (engine_created h b a s))"
| CReloadErr: "\<not> exited s \<Longrightarrow> pcs s i = Reload n k \<Longrightarrow>
     cstep i (CreateErr x) s (reload_failed i n k (set_cuda_visible s))"
| CReloadRetry: "\<not> exited s \<Longrightarrow> pcs s i = ReloadRetry n k \<Longrightarrow>
     cstep i Go s (goto i (Reload n k) s)"
| CReloadLoaded: "\<not> exited s \<Longrightarrow> pcs s i = ReloadLoaded k \<Longrightarrow> lock_free s \<Longrightarrow>
     cstep i Go s (reload_loaded i k s)"
| CReloadExhausted: "\<not> exited s \<Longrightarrow> pcs s i = ReloadExhausted k \<Longrightarrow> lock_free s \<Longrightarrow>
     cstep i Go s (reload_exhausted i s)"
| CExiting: "\<not> exited s \<Longrightarrow> pcs s i = Exiting \<Longrightarrow>
     cstep i Go s (s\<lparr>exited := True\<rparr>)"
| CStopEntry: "\<not> exited s \<Longrightarrow> pcs s i = StopEntry \<Longrightarrow> lock_free s \<Longrightarrow>
     cstep i Go s (stop_entry i s)"
| CSwitchEntry: "\<not> exited s \<Longrightarrow> pcs s i = SwitchEntry new \<Longrightarrow>
     cstep i Go s (switch_entry i new s)"
| CSwitchDrain: "\<not> exited s \<Longrightarrow> pcs s i = SwitchDrain new old \<Longrightarrow>
     cstep i Go s (switch_drained i new old s)"
| CRecoverEntry: "\<not> exited s \<Longrightarrow> pcs s i = RecoverEntry \<Longrightarrow> lock_free s \<Longrightarrow>
     cstep i Go s (recover_entry i s)"
| CDestroyAbort: "\<not> exited s \<Longrightarrow> pcs s i = DestroyAbort (r # rs) d \<Longrightarrow>
     cstep i Go s (goto i (DestroyAbort rs d) s)"
| CDestroyShutdown: "\<not> exited s \<Longrightarrow> pcs s i = DestroyAbort [] d \<Longrightarrow>
     cstep i Go s (destroy_shutdown i d s)"
| CDestroyWait: "\<not> exited s \<Longrightarrow> pcs s i = DestroyWait pids d \<Longrightarrow>
     cstep i (Alive al) s (destroy_kill i al pids d s)"
| CDestroyRelease: "\<not> exited s \<Longrightarrow> pcs s i = DestroyRelease d \<Longrightarrow>
     cstep i Go s (destroy_release i d s)"
| CGenEntry: "\<not> exited s \<Longrightarrow> pcs s i = GenEntry rid str \<Longrightarrow>
     cstep i Go s (gen_entry i rid str s)"
| CGenToken: "\<not> exited s \<Longrightarrow> pcs s i = Generating rid str \<Longrightarrow>
     cstep i Token s (gen_token i rid s)"
| CGenEnd: "\<not> exited s \<Longrightarrow> pcs s i = Generating rid str \<Longrightarrow>
     cstep i (StreamEnd out) s (gen_end i rid str out s)"
| CGenStall: "\<not> exited s \<Longrightarrow> pcs s i = Generating rid str \<Longrightarrow>
     cstep i Stall s (gen_raised i rid stall_error s)"
| CGenDied: "\<not> exited s \<Longrightarrow> pcs s i = Generating rid str \<Longrightarrow> pcs s j = Idle \<Longrightarrow>
     cstep i (CoreDied j) s (gen_core_died i rid j s)"
| CGenFailed: "\<not> exited s \<Longrightarrow> pcs s i = Generating rid str \<Longrightarrow>
     cstep i (ReqFailed x) s (gen_raised i rid x s)"

lemma step_cstep: "step i c s = Some t \<Longrightarrow> cstep i c s t"
  unfolding step_def
  by (cases "pcs s i"; cases c)
     (auto intro: cstep.intros split: if_splits list.splits)

lemma cstep_step: "cstep i c s t \<Longrightarrow> step i c s = Some t"
  by (induction rule: cstep.induct) (simp_all add: step_def)

lemma step_iff_cstep: "step i c s = Some t \<longleftrightarrow> cstep i c s t"
  using step_cstep cstep_step by blast


section \<open>Normal form of the sections\<close>

text \<open>
  A section rewrites the engine and moves its own task.  \<open>return_eng\<close>,
  \<open>return_pc\<close> and their companions give the two parts of the helpers separately.
\<close>

definition return_eng :: "kont \<Rightarrow> vllm \<Rightarrow> vllm" where
  "return_eng k e =
     (case k of
        KRet \<Rightarrow> e
      | KSwitchPaused new old \<Rightarrow> e\<lparr>e_model := new\<rparr>
      | KSwitchResumed \<Rightarrow> e\<lparr>e_accepting := True\<rparr>
      | KRecover \<Rightarrow> e\<lparr>e_recovering := False\<rparr>)"

definition return_pc :: "kont \<Rightarrow> pc" where
  "return_pc k =
     (case k of KSwitchPaused new old \<Rightarrow> ResumeEntry KSwitchResumed | _ \<Rightarrow> Returned)"

lemma return_to_sel [simp]:
  "eng (return_to i k s) = return_eng k (eng s)"
  "pcs (return_to i k s) = (pcs s)(i := return_pc k)"
  "kills (return_to i k s) = kills s" "exited (return_to i k s) = exited s"
  by (simp_all add: return_to_def return_eng_def return_pc_def split: kont.split)

lemma return_eng_sel [simp]:
  "e_state (return_eng k e) = e_state e" "e_engine (return_eng k e) = e_engine e"
  "e_child_pids (return_eng k e) = e_child_pids e" "e_lock (return_eng k e) = e_lock e"
  "e_pending_pause (return_eng k e) = e_pending_pause e"
  "e_pending_resume (return_eng k e) = e_pending_resume e"
  "e_active_requests (return_eng k e) = e_active_requests e"
  "e_inflight (return_eng k e) = e_inflight e"
  "e_recovering (return_eng k e) = (k \<noteq> KRecover \<and> e_recovering e)"
  by (simp_all add: return_eng_def split: kont.split)

definition after_eng :: "after_destroy \<Rightarrow> vllm \<Rightarrow> vllm" where
  "after_eng d e =
     (case d of
        AfterStart \<Rightarrow> e\<lparr>e_state := PAUSED, e_lock := None\<rparr>
      | AfterPause k \<Rightarrow>
          (if e_pending_resume e
           then e\<lparr>e_accepting := True, e_pending_resume := False, e_state := LOADING,
                  e_lock := None\<rparr>
           else return_eng k (e\<lparr>e_accepting := True, e_state := PAUSED, e_lock := None\<rparr>))
      | AfterReload k \<Rightarrow> return_eng k (e\<lparr>e_state := PAUSED, e_lock := None\<rparr>)
      | AfterStop \<Rightarrow> e\<lparr>e_state := STOPPED, e_lock := None\<rparr>
      | AfterRecover \<Rightarrow> e\<lparr>e_state := LOADING, e_lock := None\<rparr>)"

definition after_pc :: "after_destroy \<Rightarrow> bool \<Rightarrow> pc" where
  "after_pc d pending =
     (case d of
        AfterStart \<Rightarrow> Returned
      | AfterPause k \<Rightarrow> if pending then Reload 1 k else return_pc k
      | AfterReload k \<Rightarrow> return_pc k
      | AfterStop \<Rightarrow> Returned
      | AfterRecover \<Rightarrow> Reload 1 KRecover)"

lemma after_destroyed_sel [simp]:
  "eng (after_destroyed i d s) = after_eng d (eng s)"
  "pcs (after_destroyed i d s) = (pcs s)(i := after_pc d (e_pending_resume (eng s)))"
  "kills (after_destroyed i d s) = kills s" "exited (after_destroyed i d s) = exited s"
  by (simp_all add: after_destroyed_def after_eng_def after_pc_def split: after_destroy.split)

lemma after_eng_sel [simp]:
  "e_lock (after_eng d e) = None" "e_engine (after_eng d e) = e_engine e"
  "e_child_pids (after_eng d e) = e_child_pids e"
  "e_pending_pause (after_eng d e) = e_pending_pause e"
  "e_active_requests (after_eng d e) = e_active_requests e"
  "e_inflight (after_eng d e) = e_inflight e"
  by (simp_all add: after_eng_def split: after_destroy.split)

lemma begin_destroy_sel [simp]:
  "eng (begin_destroy i d s) =
     (if e_engine (eng s) = None then after_eng d (eng s) else eng s)"
  "pcs (begin_destroy i d s) =
     (pcs s)(i := if e_engine (eng s) = None then after_pc d (e_pending_resume (eng s))
                  else DestroyAbort (e_inflight (eng s)) d)"
  "kills (begin_destroy i d s) = kills s" "exited (begin_destroy i d s) = exited s"
  by (simp_all add: begin_destroy_def)

lemma destroy_shutdown_sel [simp]:
  "eng (destroy_shutdown i d s) =
     (if e_child_pids (eng s) \<noteq> [] then (eng s)\<lparr>e_inflight := [], e_engine := None\<rparr>
      else after_eng d ((eng s)\<lparr>e_inflight := [], e_engine := None, e_child_pids := []\<rparr>))"
  "pcs (destroy_shutdown i d s) =
     (pcs s)(i := if e_child_pids (eng s) \<noteq> [] then DestroyWait (e_child_pids (eng s)) d
                  else after_pc d (e_pending_resume (eng s)))"
  "kills (destroy_shutdown i d s) = kills s" "exited (destroy_shutdown i d s) = exited s"
  by (simp_all add: destroy_shutdown_def Let_def after_pc_def)

lemma destroy_release_sel [simp]:
  "eng (destroy_release i d s) = after_eng d ((eng s)\<lparr>e_child_pids := []\<rparr>)"
  "pcs (destroy_release i d s) = (pcs s)(i := after_pc d (e_pending_resume (eng s)))"
  "kills (destroy_release i d s) = kills s" "exited (destroy_release i d s) = exited s"
  by (simp_all add: destroy_release_def after_pc_def)

lemma destroy_kill_sel [simp]:
  "eng (destroy_kill i al pids d s) = eng s"
  "pcs (destroy_kill i al pids d s) = (pcs s)(i := DestroyRelease d)"
  "kills (destroy_kill i al pids d s) = kills s @ filter (\<lambda>p. p \<in> set al) pids"
  "exited (destroy_kill i al pids d s) = exited s"
  by (simp_all add: destroy_kill_def)

lemma set_cuda_visible_sel [simp]:
  "eng (set_cuda_visible s) = eng s" "pcs (set_cuda_visible s) = pcs s"
  "kills (set_cuda_visible s) = kills s" "exited (set_cuda_visible s) = exited s"
  by (simp_all add: set_cuda_visible_def split: option.split)

lemma engine_created_sel [simp]:
  "eng (engine_created h b a s) =
     (eng s)\<lparr>e_engine := Some h, e_child_pids := child_delta b a\<rparr>"
  "pcs (engine_created h b a s) = pcs s" "kills (engine_created h b a s) = kills s"
  "exited (engine_created h b a s) = exited s"
  by (simp_all add: engine_created_def)

lemma gen_raised_sel [simp]:
  "eng (gen_raised i rid x s) =
     (eng s)\<lparr>e_active_requests := e_active_requests (eng s) - 1,
             e_inflight := removeAll rid (e_inflight (eng s))\<rparr>"
  "pcs (gen_raised i rid x s) = (pcs s)(i := Raised x)"
  "kills (gen_raised i rid x s) = kills s" "exited (gen_raised i rid x s) = exited s"
  by (simp_all add: gen_raised_def gen_finally_def)

lemma gen_end_sel [simp]:
  "eng (gen_end i rid str out s) =
     (eng s)\<lparr>e_active_requests := e_active_requests (eng s) - 1,
             e_inflight := removeAll rid (e_inflight (eng s))\<rparr>"
  "pcs (gen_end i rid str out s) =
     (pcs s)(i := if out \<or> str then Returned else Raised no_output_error)"
  "kills (gen_end i rid str out s) = kills s" "exited (gen_end i rid str out s) = exited s"
  by (simp_all add: gen_end_def gen_finally_def)

lemma mark_dead_sel [simp]:
  "eng (mark_dead j s) = (eng s)\<lparr>e_state := DEAD, e_recovering := True\<rparr>"
  "pcs (mark_dead j s) =
     (if e_recovering (eng s) then pcs s else (pcs s)(j := RecoverEntry))"
  "kills (mark_dead j s) = kills s" "exited (mark_dead j s) = exited s"
  by (simp_all add: mark_dead_def)

text \<open>The remaining sections, to be unfolded where a proof goes through them.\<close>

lemmas section_defs =
  start_entry_def start_failed_def start_loaded_def pause_entry_def pause_drained_def
  pause_teardown_def resume_entry_def reload_failed_def reload_loaded_def reload_exhausted_def
  stop_entry_def switch_entry_def switch_drained_def recover_entry_def gen_entry_def
  gen_token_def gen_core_died_def

section \<open>The lock and the teardown\<close>

fun holds_lock :: "pc \<Rightarrow> bool" where
  "holds_lock (DestroyAbort rs d) = True"
| "holds_lock (DestroyWait pids d) = True"
| "holds_lock (DestroyRelease d) = True"
| "holds_lock _ = False"

definition lock_inv :: "sys \<Rightarrow> bool" where
  "lock_inv s \<longleftrightarrow> (\<forall>i. holds_lock (pcs s i) \<longleftrightarrow> e_lock (eng s) = Some i)"

lemma holds_lock_return_pc [simp]: "\<not> holds_lock (return_pc k)"
  by (simp add: return_pc_def split: kont.split)

lemma holds_lock_after_pc [simp]: "\<not> holds_lock (after_pc d b)"
  by (simp add: after_pc_def split: after_destroy.split)

lemma holds_lock_entry [simp]: "\<not> holds_lock (entry cmd)"
  by (cases cmd) simp_all

lemma lock_inv_free: "lock_inv s \<Longrightarrow> lock_free s \<Longrightarrow> \<not> holds_lock (pcs s i)"
  by (simp add: lock_inv_def lock_free_def)

lemma lock_inv_holder: "lock_inv s \<Longrightarrow> holds_lock (pcs s i) \<Longrightarrow> e_lock (eng s) = Some i"
  by (simp add: lock_inv_def)

text \<open>A task moves without touching the lock, or moves while it alone may hold it.\<close>

lemma lock_inv_move:
  "lock_inv s \<Longrightarrow> \<forall>j. j \<noteq> i \<longrightarrow> pcs t j = pcs s j \<Longrightarrow>
   holds_lock (pcs t i) = holds_lock (pcs s i) \<Longrightarrow> e_lock (eng t) = e_lock (eng s) \<Longrightarrow>
   lock_inv t"
  unfolding lock_inv_def by metis

lemma lock_inv_own:
  "lock_inv s \<Longrightarrow> \<forall>j. j \<noteq> i \<longrightarrow> pcs t j = pcs s j \<Longrightarrow> lock_free s \<or> holds_lock (pcs s i) \<Longrightarrow>
   e_lock (eng t) = (if holds_lock (pcs t i) then Some i else None) \<Longrightarrow> lock_inv t"
  unfolding lock_inv_def lock_free_def by (metis option.distinct(1) option.inject)

lemma cstep_lock_inv:
  assumes "cstep i c s t" and inv: "lock_inv s"
  shows "lock_inv t"
  using assms(1)
proof cases
  case (CGenDied rid str j)
  then have "\<forall>k. holds_lock (pcs t k) = holds_lock (pcs s k)"
    by (simp add: section_defs)
  with CGenDied inv show ?thesis
    by (simp add: lock_inv_def section_defs)
next
  case CExiting
  with inv show ?thesis by (simp add: lock_inv_def)
next
  case (CDestroyShutdown d)
  then have "e_lock (eng s) = Some i" using inv by (simp add: lock_inv_holder)
  with CDestroyShutdown show ?thesis
    by (intro lock_inv_own[OF inv, of i]) simp_all
qed ((rule lock_inv_move[OF inv, of i];
        simp add: section_defs lock_free_def split: option.split; fail)
     | (rule lock_inv_own[OF inv, of i];
        simp add: section_defs lock_free_def split: option.split; fail))+

section \<open>Requests in flight\<close>

fun in_flight :: "pc \<Rightarrow> bool" where
  "in_flight (Generating rid str) = True"
| "in_flight _ = False"

definition count_inv :: "sys \<Rightarrow> bool" where
  "count_inv s \<longleftrightarrow>
     finite {i. in_flight (pcs s i)} \<and>
     e_active_requests (eng s) = int (card {i. in_flight (pcs s i)})"

lemma in_flight_return_pc [simp]: "\<not> in_flight (return_pc k)"
  by (simp add: return_pc_def split: kont.split)

lemma in_flight_after_pc [simp]: "\<not> in_flight (after_pc d b)"
  by (simp add: after_pc_def split: after_destroy.split)

lemma in_flight_entry [simp]: "\<not> in_flight (entry cmd)"
  by (cases cmd) simp_all

lemma count_inv_same:
  "count_inv s \<Longrightarrow> \<forall>k. in_flight (pcs t k) = in_flight (pcs s k) \<Longrightarrow>
   e_active_requests (eng t) = e_active_requests (eng s) \<Longrightarrow> count_inv t"
  by (simp add: count_inv_def)

lemma count_inv_enter:
  assumes "count_inv s" and "\<not> in_flight (pcs s i)"
    and "\<forall>k. in_flight (pcs t k) = (k = i \<or> in_flight (pcs s k))"
    and "e_active_requests (eng t) = e_active_requests (eng s) + 1"
  shows "count_inv t"
proof -
  from assms(3) have "{k. in_flight (pcs t k)} = insert i {k. in_flight (pcs s k)}" by auto
  with assms show ?thesis by (simp add: count_inv_def)
qed

lemma count_inv_leave:
  assumes "count_inv s" and "in_flight (pcs s i)"
    and "\<forall>k. in_flight (pcs t k) = (k \<noteq> i \<and> in_flight (pcs s k))"
    and "e_active_requests (eng t) = e_active_requests (eng s) - 1"
  shows "count_inv t"
proof -
  let ?A = "{k. in_flight (pcs s k)}"
  from assms(3) have "{k. in_flight (pcs t k)} = ?A - {i}" by auto
  moreover from assms(1,2) have "finite ?A" "i \<in> ?A" by (simp_all add: count_inv_def)
  moreover from this have "0 < card ?A" by (auto simp: card_gt_0_iff)
  ultimately show ?thesis
    using assms(1,4) by (simp add: count_inv_def of_nat_diff)
qed

lemma cstep_count_inv:
  assumes "cstep i c s t" and inv: "count_inv s"
  shows "count_inv t"
  using assms(1)
proof cases
  case (CGenEntry rid str)
  show ?thesis
  proof (cases "is_available (eng s)")
    case True
    with CGenEntry show ?thesis
      by (intro count_inv_enter[OF inv, of i]) (simp_all add: section_defs)
  next
    case False
    with CGenEntry show ?thesis
      by (intro count_inv_same[OF inv]) (simp_all add: section_defs)
  qed
next
  case (CGenToken rid str)
  show ?thesis
  proof (cases "e_state (eng s) = RUNNING")
    case True
    with CGenToken inv show ?thesis by (simp add: section_defs)
  next
    case False
    with CGenToken show ?thesis
      by (intro count_inv_leave[OF inv, of i]) (simp_all add: section_defs)
  qed
next
  case (CGenDied rid str j)
  then show ?thesis
    by (intro count_inv_leave[OF inv, of i]) (auto simp: section_defs)
next
  case CExiting
  with inv show ?thesis by (simp add: count_inv_def)
qed ((rule count_inv_same[OF inv]; simp add: section_defs split: option.split; fail)
     | (rule count_inv_leave[OF inv, of i]; simp; fail))+

text \<open>Both hold in every state an environment can drive the engine to.\<close>

lemma reachable_basic_inv:
  assumes "reachable ok s0 s" and "lock_inv s0" and "count_inv s0"
  shows "lock_inv s \<and> count_inv s"
  using assms
proof (induction rule: reachable.induct)
  case reach_init
  then show ?case by simp
next
  case (reach_step s l t)
  then have IH: "lock_inv s" "count_inv s" by simp_all
  show ?case
  proof (cases l)
    case (LCall i cmd)
    with reach_step have t: "pcs s i = Idle" "t = goto i (entry cmd) s"
      by (auto split: if_splits)
    have "lock_inv t"
      by (rule lock_inv_move[OF IH(1), of i]) (simp_all add: t)
    moreover have "count_inv t"
      by (rule count_inv_same[OF IH(2)]) (simp_all add: t)
    ultimately show ?thesis ..
  next
    case (LRun i c)
    with reach_step have "cstep i c s t" by (simp add: step_cstep)
    with IH show ?thesis by (blast intro: cstep_lock_inv cstep_count_inv)
  qed
qed

lemma basic_inv_boot:
  "e_lock e = None \<Longrightarrow> e_active_requests e = 0 \<Longrightarrow>
   lock_inv (boot_start path e) \<and> count_inv (boot_start path e) \<and>
   lock_inv (boot_paused path e) \<and> count_inv (boot_paused path e)"
  by (auto simp: lock_inv_def count_inv_def boot_start_def boot_paused_def sys_of_def
      start_paused_engine_def goto_def)

end
