(* ===== verification/Engine_Life.thy ===== *)
theory Engine_Life
  imports Engine_Inv
begin

text \<open>
  The lifecycle of the engine under a benign environment, and the abstract automaton its
  states follow.  Benign means that the engine is not started a second time, is not being
  shut down, and that a request reports a dead core only while the engine serves or is
  already marked dead.  Pauses, resumes, model switches and requests come in any number and
  at any moment.
\<close>

section \<open>Benign environments\<close>

fun benign :: "sys \<Rightarrow> label \<Rightarrow> bool" where
  "benign s (LCall i (CStart path)) = False"
| "benign s (LCall i CStop) = False"
| "benign s (LCall i cmd) = True"
| "benign s (LRun i (CoreDied j)) = (e_state (eng s) \<in> {RUNNING, DEAD})"
| "benign s (LRun i c) = True"

section \<open>Who owns a transition\<close>

text \<open>
  A coroutine that has moved the engine into a transitional state owns it until it has moved
  it on; \<open>owned_state\<close> is the state in which it must find the engine.
\<close>

fun destroy_state :: "after_destroy \<Rightarrow> engine_state" where
  "destroy_state AfterStart = STARTING"
| "destroy_state (AfterPause k) = UNLOADING"
| "destroy_state (AfterReload k) = LOADING"
| "destroy_state AfterStop = STOPPING"
| "destroy_state AfterRecover = DEAD"

fun owned_state :: "pc \<Rightarrow> engine_state option" where
  "owned_state (StartEntry path) = Some STOPPED"
| "owned_state StartCreate = Some STARTING"
| "owned_state (StartFailed x) = Some STARTING"
| "owned_state StartLoaded = Some STARTING"
| "owned_state (PauseTeardown k) = Some UNLOADING"
| "owned_state (Reload n k) = Some LOADING"
| "owned_state (ReloadRetry n k) = Some LOADING"
| "owned_state (ReloadLoaded k) = Some LOADING"
| "owned_state (ReloadExhausted k) = Some LOADING"
| "owned_state StopEntry = Some STOPPING"
| "owned_state (DestroyAbort rs d) = Some (destroy_state d)"
| "owned_state (DestroyWait pids d) = Some (destroy_state d)"
| "owned_state (DestroyRelease d) = Some (destroy_state d)"
| "owned_state _ = None"

fun core_gone :: "pc \<Rightarrow> bool" where
  "core_gone (StartEntry path) = True"
| "core_gone StartCreate = True"
| "core_gone (StartFailed x) = True"
| "core_gone (Reload n k) = True"
| "core_gone (ReloadRetry n k) = True"
| "core_gone (ReloadExhausted k) = True"
| "core_gone _ = False"

fun core_up :: "pc \<Rightarrow> bool" where
  "core_up StartLoaded = True"
| "core_up (ReloadLoaded k) = True"
| "core_up (PauseTeardown k) = True"
| "core_up (DestroyAbort rs d) = True"
| "core_up _ = False"

fun core_reaping :: "pc \<Rightarrow> bool" where
  "core_reaping (DestroyWait pids d) = True"
| "core_reaping (DestroyRelease d) = True"
| "core_reaping _ = False"

text \<open>A teardown on behalf of a pending pause has already cleared it.\<close>

fun destroy_clears :: "after_destroy \<Rightarrow> bool" where
  "destroy_clears AfterStart = True"
| "destroy_clears (AfterReload k) = True"
| "destroy_clears _ = False"

fun pending_cleared :: "pc \<Rightarrow> bool" where
  "pending_cleared (DestroyAbort rs d) = destroy_clears d"
| "pending_cleared (DestroyWait pids d) = destroy_clears d"
| "pending_cleared (DestroyRelease d) = destroy_clears d"
| "pending_cleared _ = False"

text \<open>Only the recovery coroutine continues into its own \<open>finally\<close>.\<close>

fun kont_ok :: "pc \<Rightarrow> bool" where
  "kont_ok (PauseEntry u k) = (k \<noteq> KRecover)"
| "kont_ok (PauseDrain k) = (k \<noteq> KRecover)"
| "kont_ok (PauseDrained k) = (k \<noteq> KRecover)"
| "kont_ok (PauseTeardown k) = (k \<noteq> KRecover)"
| "kont_ok (ResumeEntry k) = (k \<noteq> KRecover)"
| "kont_ok (DestroyAbort rs (AfterPause k)) = (k \<noteq> KRecover)"
| "kont_ok (DestroyWait pids (AfterPause k)) = (k \<noteq> KRecover)"
| "kont_ok (DestroyRelease (AfterPause k)) = (k \<noteq> KRecover)"
| "kont_ok _ = True"

section \<open>The invariant\<close>

text \<open>What a coroutine's suspension point says of the engine.\<close>

definition pc_ok :: "vllm \<Rightarrow> pc \<Rightarrow> bool" where
  "pc_ok e p \<longleftrightarrow>
     (case owned_state p of None \<Rightarrow> True | Some st \<Rightarrow> e_state e = st) \<and>
     (core_gone p \<longrightarrow> e_engine e = None \<and> e_child_pids e = []) \<and>
     (core_up p \<longrightarrow> e_engine e \<noteq> None) \<and>
     (core_reaping p \<longrightarrow> e_engine e = None) \<and>
     (pending_cleared p \<longrightarrow> e_pending_pause e = None) \<and>
     p \<noteq> StopEntry \<and> kont_ok p"

text \<open>
  What the state says of the engine: nothing is on the GPU when it is paused or stopped, a
  core is there when it runs or has just died, a pending pause waits only on a load and a
  pending resume only on a teardown.
\<close>

definition eng_ok :: "vllm \<Rightarrow> bool" where
  "eng_ok e \<longleftrightarrow>
     (e_state e \<in> {PAUSED, STOPPED} \<longrightarrow> e_engine e = None \<and> e_child_pids e = []) \<and>
     (e_state e = RUNNING \<longrightarrow> e_engine e \<noteq> None) \<and>
     (e_state e = DEAD \<longrightarrow> e_recovering e \<and> (e_lock e = None \<longrightarrow> e_engine e \<noteq> None)) \<and>
     e_state e \<noteq> STOPPING \<and>
     (e_pending_pause e \<noteq> None \<longrightarrow> e_state e \<in> {LOADING, STARTING}) \<and>
     (e_pending_resume e \<longrightarrow> e_state e = UNLOADING)"

definition life_inv :: "sys \<Rightarrow> bool" where
  "life_inv s \<longleftrightarrow>
     lock_inv s \<and> eng_ok (eng s) \<and> (\<forall>i. pc_ok (eng s) (pcs s i)) \<and>
     (\<forall>i j. owned_state (pcs s i) \<noteq> None \<longrightarrow> owned_state (pcs s j) \<noteq> None \<longrightarrow> i = j)"

subsection \<open>Facts on the suspension points\<close>

lemma owned_return_pc [simp]: "owned_state (return_pc k) = None"
  by (simp add: return_pc_def split: kont.split)

lemma core_return_pc [simp]:
  "\<not> core_gone (return_pc k)" "\<not> core_up (return_pc k)" "\<not> core_reaping (return_pc k)"
  "\<not> pending_cleared (return_pc k)" "return_pc k \<noteq> StopEntry" "kont_ok (return_pc k)"
  by (simp_all add: return_pc_def split: kont.split)

lemma pc_ok_return_pc [simp]: "pc_ok e (return_pc k)"
  by (simp add: pc_ok_def)

lemma core_gone_owned: "core_gone p \<Longrightarrow> owned_state p \<noteq> None"
  by (cases p) simp_all

lemma core_up_owned: "core_up p \<Longrightarrow> owned_state p \<noteq> None"
  by (cases p) simp_all

lemma core_reaping_owned: "core_reaping p \<Longrightarrow> owned_state p \<noteq> None"
  by (cases p) simp_all

lemma holds_lock_owned: "holds_lock p \<Longrightarrow> owned_state p \<noteq> None"
  by (cases p) simp_all

lemma pending_cleared_holds: "pending_cleared p \<Longrightarrow> holds_lock p"
  by (cases p) simp_all

lemma pending_cleared_owned: "pending_cleared p \<Longrightarrow> owned_state p \<noteq> None"
  by (cases p) simp_all

lemmas owned_lemmas =
  core_gone_owned core_up_owned core_reaping_owned pending_cleared_owned

text \<open>A coroutine that owns nothing stays in order whatever happens to the engine.\<close>

lemma pc_ok_unowned: "owned_state p = None \<Longrightarrow> pc_ok e p \<Longrightarrow> pc_ok e' p"
  using owned_lemmas[of p] by (auto simp: pc_ok_def)

lemma pc_ok_same_core:
  "pc_ok e p \<Longrightarrow> e_state e' = e_state e \<Longrightarrow> e_engine e' = e_engine e \<Longrightarrow>
   e_child_pids e' = e_child_pids e \<Longrightarrow>
   e_pending_pause e' = e_pending_pause e \<or> \<not> holds_lock p \<Longrightarrow> pc_ok e' p"
  using pending_cleared_holds[of p] by (auto simp: pc_ok_def split: option.splits)

lemma no_owner:
  assumes "life_inv s" and "e_state (eng s) \<in> {RUNNING, PAUSED}"
  shows "owned_state (pcs s j) = None"
proof (rule ccontr)
  assume "owned_state (pcs s j) \<noteq> None"
  then obtain st where st: "owned_state (pcs s j) = Some st" by auto
  with assms(1) have "e_state (eng s) = st"
    unfolding life_inv_def pc_ok_def by (metis option.simps(5))
  with assms(2) st show False
    by (cases "pcs s j"; force elim!: destroy_state.elims)
qed

text \<open>When the engine is dead and the lock free, nobody owns it either.\<close>

lemma no_owner_dead:
  assumes "life_inv s" and "e_state (eng s) = DEAD" and "lock_free s"
  shows "owned_state (pcs s j) = None"
proof (rule ccontr)
  assume "owned_state (pcs s j) \<noteq> None"
  then obtain st where st: "owned_state (pcs s j) = Some st" by auto
  with assms(1) have "e_state (eng s) = st"
    unfolding life_inv_def pc_ok_def by (metis option.simps(5))
  moreover have "\<not> holds_lock (pcs s j)"
    using assms(1,3) by (simp add: life_inv_def lock_inv_free)
  ultimately show False using assms(2) st by (cases "pcs s j") simp_all
qed

subsection \<open>How a section preserves it\<close>

text \<open>A coroutine that owns nothing moves on and leaves the core alone.\<close>

lemma life_inv_pass:
  assumes inv: "life_inv s" and others: "\<forall>j. j \<noteq> i \<longrightarrow> pcs t j = pcs s j"
    and own: "owned_state (pcs s i) = None" "owned_state (pcs t i) = None"
    and same: "e_state (eng t) = e_state (eng s)" "e_engine (eng t) = e_engine (eng s)"
      "e_child_pids (eng t) = e_child_pids (eng s)" "e_lock (eng t) = e_lock (eng s)"
      "e_pending_pause (eng t) = e_pending_pause (eng s) \<or> lock_free s"
    and ok: "eng_ok (eng t)" "pc_ok (eng t) (pcs t i)"
  shows "life_inv t"
proof -
  have "lock_inv t"
  proof (rule lock_inv_move)
    show "lock_inv s" using inv by (simp add: life_inv_def)
    show "holds_lock (pcs t i) = holds_lock (pcs s i)"
      using own holds_lock_owned by blast
  qed (use others same in simp_all)
  moreover have "pc_ok (eng t) (pcs t j)" for j
  proof (cases "j = i")
    case False
    have "e_pending_pause (eng t) = e_pending_pause (eng s) \<or> \<not> holds_lock (pcs s j)"
      using same(5) inv lock_inv_free unfolding life_inv_def by blast
    with False inv others same show ?thesis
      by (metis life_inv_def pc_ok_same_core)
  qed (use ok(2) in simp)
  moreover have "j = k" if "owned_state (pcs t j) \<noteq> None" "owned_state (pcs t k) \<noteq> None" for j k
    using that inv others own(2) unfolding life_inv_def by metis
  ultimately show ?thesis using ok(1) by (auto simp: life_inv_def)
qed

text \<open>A coroutine that is, or can become, the only owner changes what it likes.\<close>

lemma life_inv_own:
  assumes inv: "life_inv s" and others: "\<forall>j. j \<noteq> i \<longrightarrow> pcs t j = pcs s j"
    and alone: "\<forall>j. j \<noteq> i \<longrightarrow> owned_state (pcs s j) = None"
    and lock: "e_lock (eng t) = (if holds_lock (pcs t i) then Some i else None)"
    and ok: "eng_ok (eng t)" "pc_ok (eng t) (pcs t i)"
  shows "life_inv t"
proof -
  have "\<not> holds_lock (pcs t j)" if "j \<noteq> i" for j
    using that others alone holds_lock_owned by metis
  with lock have "lock_inv t" unfolding lock_inv_def by (metis option.inject option.distinct(1))
  moreover have "pc_ok (eng t) (pcs t j)" for j
    using inv others ok(2) alone pc_ok_unowned unfolding life_inv_def by metis
  moreover have "j = k" if "owned_state (pcs t j) \<noteq> None" "owned_state (pcs t k) \<noteq> None" for j k
    using that others alone by metis
  ultimately show ?thesis using ok(1) by (auto simp: life_inv_def)
qed

lemma owner_alone:
  assumes "life_inv s" and "owned_state (pcs s i) \<noteq> None"
  shows "\<forall>j. j \<noteq> i \<longrightarrow> owned_state (pcs s j) = None"
  using assms unfolding life_inv_def by metis

lemma life_inv_eng_ok: "life_inv s \<Longrightarrow> eng_ok (eng s)"
  by (simp add: life_inv_def)

lemma life_inv_pc_ok: "life_inv s \<Longrightarrow> pc_ok (eng s) (pcs s i)"
  by (simp add: life_inv_def)

lemma life_inv_lock: "life_inv s \<Longrightarrow> lock_inv s"
  by (simp add: life_inv_def)

text \<open>An owner that does not hold the lock finds it free or held by nobody but an owner.\<close>

lemma owner_lock_free:
  assumes inv: "life_inv s" and own: "owned_state (pcs s i) \<noteq> None"
    and "\<not> holds_lock (pcs s i)"
  shows "e_lock (eng s) = None"
proof (rule ccontr)
  assume "e_lock (eng s) \<noteq> None"
  then obtain j where j: "e_lock (eng s) = Some j" by auto
  with inv have "holds_lock (pcs s j)" by (simp add: life_inv_def lock_inv_def)
  with own inv have "j = i" using holds_lock_owned unfolding life_inv_def by metis
  with \<open>holds_lock (pcs s j)\<close> assms(3) show False by simp
qed

text \<open>The end of a teardown: the engine is gone and the new state fits.\<close>

lemma eng_ok_after:
  assumes "eng_ok e" and "e_state e = destroy_state d" and "d \<noteq> AfterStop"
    and "destroy_clears d \<longrightarrow> e_pending_pause e = None"
    and "e_engine e' = None" and "e_child_pids e' = []" and "e_state e' = e_state e"
    and "e_pending_pause e' = e_pending_pause e" and "e_pending_resume e' = e_pending_resume e"
  shows "eng_ok (after_eng d e')"
proof (cases d)
  case (AfterPause k)
  with assms show ?thesis
    by (cases k) (auto simp: eng_ok_def after_eng_def return_eng_def)
next
  case (AfterReload k)
  with assms show ?thesis
    by (cases k) (auto simp: eng_ok_def after_eng_def return_eng_def)
qed (use assms in \<open>auto simp: eng_ok_def after_eng_def\<close>)

lemma pc_ok_after:
  assumes "d \<noteq> AfterStop" and "kont_ok (DestroyRelease d)"
    and "e_engine e' = None" and "e_child_pids e' = []"
    and "pr = e_pending_resume e'"
  shows "pc_ok (after_eng d e') (after_pc d pr)"
  using assms by (cases d) (auto simp: pc_ok_def after_eng_def after_pc_def)

lemma holds_lock_owner_facts:
  assumes "life_inv s" and "pcs s i \<in> {DestroyAbort rs d, DestroyWait pids d, DestroyRelease d}"
  shows "e_lock (eng s) = Some i" and "e_state (eng s) = destroy_state d" and "d \<noteq> AfterStop"
    and "destroy_clears d \<longrightarrow> e_pending_pause (eng s) = None" and "kont_ok (DestroyRelease d)"
proof -
  have l: "lock_inv s" and p: "pc_ok (eng s) (pcs s i)" and e: "eng_ok (eng s)"
    using assms(1) by (simp_all add: life_inv_def)
  show "e_lock (eng s) = Some i" using l assms(2) lock_inv_holder by fastforce
  show st: "e_state (eng s) = destroy_state d" using p assms(2) by (auto simp: pc_ok_def)
  show "d \<noteq> AfterStop" using e st by (auto simp: eng_ok_def)
  show "destroy_clears d \<longrightarrow> e_pending_pause (eng s) = None"
    using p assms(2) by (auto simp: pc_ok_def)
  show "kont_ok (DestroyRelease d)"
    using p assms(2) by (cases d) (auto simp: pc_ok_def)
qed

subsection \<open>Who makes the step\<close>

text \<open>
  A step is made by a coroutine that tears the core down and holds the lock, by one that
  owns the transition, by one that may become its owner, by one that marks the core dead, or
  by one that leaves the lifecycle alone.
\<close>

lemma holder_life_inv:
  assumes "cstep i c s t" and inv: "life_inv s" and holds: "holds_lock (pcs s i)"
  shows "life_inv t"
proof -
  note ok = life_inv_eng_ok[OF inv] life_inv_pc_ok[OF inv, of i] life_inv_lock[OF inv]
  note alone = owner_alone[OF inv holds_lock_owned[OF holds]]
  show ?thesis
    using assms(1)
  proof cases
    case (CDestroyAbort r rs d)
    with inv holds_lock_owner_facts[of s i "r # rs" d] show ?thesis using ok alone
      by (intro life_inv_own[OF inv, of i])
         (auto simp: pc_ok_def elim: kont_ok.elims)
  next
    case (CDestroyShutdown d)
    note facts = holds_lock_owner_facts[of s i "[]" d, OF inv]
    show ?thesis
    proof (cases "e_child_pids (eng s) = []")
      case True
      with CDestroyShutdown facts ok alone show ?thesis
        by (intro life_inv_own[OF inv, of i])
           (auto intro: eng_ok_after[of "eng s"] pc_ok_after)
    next
      case False
      with CDestroyShutdown facts ok alone show ?thesis
        by (intro life_inv_own[OF inv, of i]; cases d)
           (auto simp: pc_ok_def eng_ok_def)
    qed
  next
    case (CDestroyWait pids d al)
    with inv holds_lock_owner_facts[of s i _ d pids] show ?thesis using ok alone
      by (intro life_inv_own[OF inv, of i]) (auto simp: pc_ok_def)
  next
    case (CDestroyRelease d)
    note facts = holds_lock_owner_facts[of s i _ d, OF inv]
    have "e_engine (eng s) = None" using ok(2) CDestroyRelease by (simp add: pc_ok_def)
    with CDestroyRelease facts ok alone show ?thesis
      by (intro life_inv_own[OF inv, of i])
         (auto intro: eng_ok_after[of "eng s"] pc_ok_after)
  qed (use holds in simp_all)
qed

lemma owner_life_inv:
  assumes "cstep i c s t" and inv: "life_inv s"
    and own: "owned_state (pcs s i) \<noteq> None" and "\<not> holds_lock (pcs s i)"
  shows "life_inv t"
proof -
  note ok = life_inv_eng_ok[OF inv] life_inv_pc_ok[OF inv, of i]
  note alone = owner_alone[OF inv own] and free = owner_lock_free[OF inv own assms(4)]
  show ?thesis
    using assms(1)
    by cases (use own assms(4) ok alone free in
      \<open>(simp; fail) | (intro life_inv_own[OF inv, of i];
        auto simp: section_defs pc_ok_def eng_ok_def split: option.splits)\<close>)+
qed

text \<open>On a free lock, a coroutine that finds the engine in the right state takes it over.\<close>

fun takes_over :: "pc \<Rightarrow> engine_state \<Rightarrow> bool" where
  "takes_over (PauseEntry u k) st = (st = RUNNING \<and> u = IMMEDIATE)"
| "takes_over (PauseDrained k) st = (st = RUNNING)"
| "takes_over (ResumeEntry k) st = (st = PAUSED)"
| "takes_over RecoverEntry st = (st = DEAD)"
| "takes_over _ st = False"

lemma entrant_life_inv:
  assumes "cstep i c s t" and inv: "life_inv s" and take: "takes_over (pcs s i) (e_state (eng s))"
  shows "life_inv t"
proof -
  have free: "lock_free s" using assms(1) take by cases simp_all
  have "e_state (eng s) \<in> {RUNNING, PAUSED, DEAD}" using take by (cases "pcs s i") auto
  with no_owner[OF inv] no_owner_dead[OF inv _ free]
  have "\<forall>j. owned_state (pcs s j) = None" by auto
  note facts = this take free life_inv_eng_ok[OF inv] life_inv_pc_ok[OF inv, of i]
  show ?thesis
    using assms(1)
    by cases (use facts in
      \<open>(simp; fail) | (intro life_inv_own[OF inv, of i];
        auto simp: section_defs pc_ok_def eng_ok_def lock_free_def)\<close>)+
qed

lemma mark_dead_life_inv:
  assumes inv: "life_inv s" and st: "e_state (eng s) \<in> {RUNNING, DEAD}" and "pcs s j = Idle"
  shows "life_inv (mark_dead j s)"
proof (cases "e_state (eng s) = RUNNING")
  case True
  with no_owner[OF inv] have none: "\<forall>k. owned_state (pcs s k) = None" by simp
  then have "\<not> holds_lock (pcs s k)" for k using holds_lock_owned by metis
  with life_inv_lock[OF inv] have "e_lock (eng s) = None"
    unfolding lock_inv_def by (metis option.exhaust)
  with assms True none life_inv_eng_ok[OF inv] show ?thesis
    by (intro life_inv_own[OF inv, of j]) (auto simp: pc_ok_def eng_ok_def split: if_splits)
next
  case False
  with st life_inv_eng_ok[OF inv] have "mark_dead j s = s"
    by (auto simp: mark_dead_def upd_def eng_ok_def)
  with inv show ?thesis by simp
qed

lemma bystander_life_inv:
  assumes "cstep i c s t" and inv: "life_inv s" and "owned_state (pcs s i) = None"
    and "\<not> takes_over (pcs s i) (e_state (eng s))" and "\<forall>j. c \<noteq> CoreDied j"
  shows "life_inv t"
proof -
  note ok = life_inv_eng_ok[OF inv] life_inv_pc_ok[OF inv, of i]
  show ?thesis
    using assms(1)
  proof cases
    case (CPauseEntry u k)
    with assms(4) ok show ?thesis
      by (intro life_inv_pass[OF inv, of i])
         (cases u; auto simp: section_defs pc_ok_def eng_ok_def)+
  next
    case CExiting
    with inv show ?thesis by (simp add: life_inv_def lock_inv_def)
  next
    case CStopEntry
    with ok show ?thesis by (simp add: pc_ok_def)
  qed (use assms(3-5) ok in
    \<open>(simp; fail) | (intro life_inv_pass[OF inv, of i];
      auto simp: section_defs pc_ok_def eng_ok_def)\<close>)+
qed

lemma cstep_life_inv:
  assumes "cstep i c s t" and inv: "life_inv s" and ben: "benign s (LRun i c)"
  shows "life_inv t"
proof (cases "\<exists>j. c = CoreDied j")
  case True
  then obtain j where c: "c = CoreDied j" by blast
  from assms(1) c obtain rid str where died: "t = gen_core_died i rid j s"
    "pcs s i = Generating rid str" "pcs s j = Idle" by cases auto
  then have "i \<noteq> j" by auto
  with died(2) have gen: "pcs (mark_dead j s) i = Generating rid str" by simp
  have inv_m: "life_inv (mark_dead j s)"
    using mark_dead_life_inv[OF inv] ben c died(3) by simp
  have "life_inv (gen_raised i rid core_died_error (mark_dead j s))"
    using gen life_inv_eng_ok[OF inv_m]
    by (intro life_inv_pass[OF inv_m, of i]) (simp_all add: pc_ok_def eng_ok_def)
  with died(1) show ?thesis by (simp add: gen_core_died_def)
next
  case False
  with holder_life_inv[OF assms(1,2)] owner_life_inv[OF assms(1,2)]
    entrant_life_inv[OF assms(1,2)] bystander_life_inv[OF assms(1,2)]
  show ?thesis by blast
qed

section \<open>Reachable states\<close>

lemma fire_life_inv:
  assumes "life_inv s" and "benign s l" and "fire l s = Some t"
  shows "life_inv t"
proof (cases l)
  case (LCall i cmd)
  with assms have idle: "pcs s i = Idle" and t: "t = goto i (entry cmd) s"
    by (auto split: if_splits)
  have e: "owned_state (entry cmd) = None" "pc_ok (eng s) (entry cmd)"
    using assms(2) LCall by (cases cmd; simp add: pc_ok_def)+
  show ?thesis
    by (rule life_inv_pass[OF assms(1), of i])
       (use idle t e life_inv_eng_ok[OF assms(1)] in simp_all)
next
  case (LRun i c)
  with assms show ?thesis by (auto intro: cstep_life_inv step_cstep)
qed

lemma reachable_life_inv:
  "reachable benign s0 s \<Longrightarrow> life_inv s0 \<Longrightarrow> life_inv s"
  by (induction rule: reachable.induct) (auto intro: fire_life_inv)

lemma life_inv_boot_start:
  "life_inv (boot_start path (vllm_init util ml tp devs eager))"
  by (auto simp: life_inv_def lock_inv_def eng_ok_def pc_ok_def boot_start_def sys_of_def
      vllm_init_def goto_def)

lemma life_inv_boot_paused:
  "life_inv (boot_paused path (vllm_init util ml tp devs eager))"
  by (auto simp: life_inv_def lock_inv_def eng_ok_def pc_ok_def boot_paused_def sys_of_def
      vllm_init_def start_paused_engine_def)

text \<open>The engine as \<open>main.py\<close> brings it up, and the states it reaches from there.\<close>

inductive booted :: "sys \<Rightarrow> bool" where
  boot_running: "booted (boot_start path (vllm_init util ml tp devs eager))"
| boot_yielded: "booted (boot_paused path (vllm_init util ml tp devs eager))"

lemma booted_life_inv: "booted s \<Longrightarrow> life_inv s"
  by (induction rule: booted.induct)
     (simp_all add: life_inv_boot_start life_inv_boot_paused)

lemma booted_basic_inv: "booted s \<Longrightarrow> lock_inv s \<and> count_inv s"
  by (induction rule: booted.induct) (simp_all add: basic_inv_boot vllm_init_def)

section \<open>The abstract automaton\<close>

text \<open>The lifecycle the engine is meant to follow, as a relation on its states.\<close>

fun edge :: "engine_state \<Rightarrow> engine_state \<Rightarrow> bool" where
  "edge STOPPED t = (t = STARTING)"
| "edge STARTING t = (t \<in> {RUNNING, PAUSED, STOPPED})"
| "edge RUNNING t = (t \<in> {UNLOADING, DEAD})"
| "edge UNLOADING t = (t \<in> {PAUSED, LOADING})"
| "edge PAUSED t = (t = LOADING)"
| "edge LOADING t = (t \<in> {RUNNING, PAUSED})"
| "edge STOPPING t = False"
| "edge DEAD t = (t = LOADING)"

lemma edge_after_eng:
  "d \<noteq> AfterStop \<Longrightarrow> edge (destroy_state d) (e_state (after_eng d e'))"
  by (cases d) (simp_all add: after_eng_def)

lemma cstep_edge:
  assumes "cstep i c s t" and inv: "life_inv s" and ben: "benign s (LRun i c)"
  shows "e_state (eng t) = e_state (eng s) \<or> edge (e_state (eng s)) (e_state (eng t))"
proof -
  note ok = life_inv_eng_ok[OF inv] life_inv_pc_ok[OF inv, of i]
  show ?thesis
    using assms(1)
  proof cases
    case (CDestroyShutdown d)
    with holds_lock_owner_facts[of s i "[]" d, OF inv] show ?thesis
      by (auto simp: edge_after_eng)
  next
    case (CDestroyRelease d)
    with holds_lock_owner_facts[of s i _ d, OF inv] show ?thesis
      by (auto simp: edge_after_eng)
  next
    case CStopEntry
    with ok show ?thesis by (simp add: pc_ok_def)
  next
    case (CGenDied rid str j)
    with ben show ?thesis by (auto simp: section_defs)
  qed (use ok in \<open>auto simp: section_defs pc_ok_def eng_ok_def after_eng_def split: option.splits\<close>)
qed

text \<open>Every run of the coroutines is, state by state, a walk in the automaton.\<close>

lemma fire_edge:
  assumes "life_inv s" and "benign s l" and "fire l s = Some t"
  shows "e_state (eng t) = e_state (eng s) \<or> edge (e_state (eng s)) (e_state (eng t))"
proof (cases l)
  case (LCall i cmd)
  with assms show ?thesis by (auto split: if_splits)
next
  case (LRun i c)
  with assms cstep_edge step_cstep show ?thesis by fastforce
qed

section \<open>A dead engine is being recovered\<close>

fun kont_of :: "pc \<Rightarrow> kont option" where
  "kont_of (Reload n k) = Some k"
| "kont_of (ReloadRetry n k) = Some k"
| "kont_of (ReloadLoaded k) = Some k"
| "kont_of (ReloadExhausted k) = Some k"
| "kont_of (DestroyAbort rs (AfterReload k)) = Some k"
| "kont_of (DestroyWait pids (AfterReload k)) = Some k"
| "kont_of (DestroyRelease (AfterReload k)) = Some k"
| "kont_of _ = None"

fun reviving :: "pc \<Rightarrow> bool" where
  "reviving RecoverEntry = True"
| "reviving (DestroyAbort rs d) = (d = AfterRecover)"
| "reviving (DestroyWait pids d) = (d = AfterRecover)"
| "reviving (DestroyRelease d) = (d = AfterRecover)"
| "reviving Exiting = True"
| "reviving _ = False"

text \<open>While the flag is set a coroutine of the recovery is under way (or the process is
  about to be restarted).\<close>

definition recovery_inv :: "sys \<Rightarrow> bool" where
  "recovery_inv s \<longleftrightarrow>
     (e_recovering (eng s) \<longrightarrow>
        (\<exists>j. reviving (pcs s j) \<or> kont_of (pcs s j) = Some KRecover))"

lemma reviving_return_pc [simp]: "\<not> reviving (return_pc k)" "kont_of (return_pc k) = None"
  by (simp_all add: return_pc_def split: kont.split)

lemma recovery_inv_pass:
  assumes "recovery_inv s" and "\<forall>j. j \<noteq> i \<longrightarrow> pcs t j = pcs s j"
    and "e_recovering (eng t) \<longrightarrow> e_recovering (eng s)"
    and "e_recovering (eng t) \<longrightarrow> reviving (pcs s i) \<or> kont_of (pcs s i) = Some KRecover \<longrightarrow>
      reviving (pcs t i) \<or> kont_of (pcs t i) = Some KRecover"
  shows "recovery_inv t"
  unfolding recovery_inv_def
proof
  assume r: "e_recovering (eng t)"
  with assms(1,3) obtain j where j: "reviving (pcs s j) \<or> kont_of (pcs s j) = Some KRecover"
    unfolding recovery_inv_def by blast
  show "\<exists>j. reviving (pcs t j) \<or> kont_of (pcs t j) = Some KRecover"
  proof (cases "j = i")
    case True
    with j r assms(4) show ?thesis by blast
  next
    case False
    with j assms(2) show ?thesis by metis
  qed
qed

lemma reviving_after_pc [simp]:
  "reviving (after_pc d b) = False"
  "kont_of (after_pc d b) =
     (if d = AfterRecover then Some KRecover
      else (case d of AfterPause k \<Rightarrow> if b then Some k else None | _ \<Rightarrow> None))"
  by (auto simp: after_pc_def split: after_destroy.split)

lemma recovering_after_eng:
  "e_recovering (after_eng d e) \<longrightarrow> e_recovering e \<and> d \<noteq> AfterReload KRecover"
  by (auto simp: after_eng_def return_eng_def split: after_destroy.splits if_splits kont.splits)

lemma cstep_recovery_inv:
  assumes "cstep i c s t" and inv: "recovery_inv s" and li: "life_inv s"
    and ben: "benign s (LRun i c)"
  shows "recovery_inv t"
  using assms(1)
proof cases
  case (CGenDied rid str j)
  then have "i \<noteq> j" by auto
  show ?thesis
  proof (cases "e_recovering (eng s)")
    case False
    with CGenDied \<open>i \<noteq> j\<close> show ?thesis
      by (auto simp: recovery_inv_def section_defs intro!: exI[of _ j])
  next
    case True
    with CGenDied show ?thesis
      by (intro recovery_inv_pass[OF inv, of i]) (simp_all add: section_defs)
  qed
next
  case CExiting
  with inv show ?thesis by (simp add: recovery_inv_def)
next
  case CStopEntry
  with life_inv_pc_ok[OF li, of i] show ?thesis by (simp add: pc_ok_def)
next
  case (CDestroyAbort r rs d)
  then show ?thesis
    by (intro recovery_inv_pass[OF inv, of i]) (cases d; simp)+
next
  case (CDestroyShutdown d)
  then show ?thesis
    using recovering_after_eng[of d "(eng s)\<lparr>e_inflight := [], e_engine := None, e_child_pids := []\<rparr>"]
      holds_lock_owner_facts(5)[of s i "[]" d, OF li]
    by (intro recovery_inv_pass[OF inv, of i]) (cases d; auto)+
next
  case (CDestroyWait pids d al)
  then show ?thesis
    by (intro recovery_inv_pass[OF inv, of i]) (cases d; simp)+
next
  case (CDestroyRelease d)
  then show ?thesis
    using recovering_after_eng[of d "(eng s)\<lparr>e_child_pids := []\<rparr>"]
    by (intro recovery_inv_pass[OF inv, of i]) (cases d; auto)+
qed ((rule recovery_inv_pass[OF inv, of i];
      auto simp: section_defs after_eng_def split: option.splits; fail))+

lemma fire_recovery_inv:
  assumes "recovery_inv s" and "life_inv s" and "benign s l" and "fire l s = Some t"
  shows "recovery_inv t"
proof (cases l)
  case (LCall i cmd)
  with assms(4) have "pcs s i = Idle" and "t = goto i (entry cmd) s"
    by (auto split: if_splits)
  then show ?thesis
    by (intro recovery_inv_pass[OF assms(1), of i]) simp_all
next
  case (LRun i c)
  with assms show ?thesis by (auto intro: cstep_recovery_inv step_cstep)
qed

lemma booted_recovery_inv: "booted s \<Longrightarrow> recovery_inv s"
  by (induction rule: booted.induct)
     (simp_all add: recovery_inv_def boot_start_def boot_paused_def sys_of_def vllm_init_def
        start_paused_engine_def)

lemma reachable_recovery_inv:
  assumes "reachable benign s0 s" and "booted s0"
  shows "recovery_inv s"
  using assms
proof (induction rule: reachable.induct)
  case reach_init
  then show ?case by (rule booted_recovery_inv)
next
  case (reach_step s l t)
  then show ?case
    using fire_recovery_inv reachable_life_inv booted_life_inv by blast
qed

text \<open>A dead engine has its recovery coroutine waiting for the lock or reaping the core.\<close>

lemma dead_reviving:
  assumes "life_inv s" and "recovery_inv s" and "e_state (eng s) = DEAD"
  shows "\<exists>j. reviving (pcs s j)"
proof -
  from assms(1,3) have "e_recovering (eng s)" by (simp add: life_inv_def eng_ok_def)
  with assms(2) obtain j where
    j: "reviving (pcs s j) \<or> kont_of (pcs s j) = Some KRecover"
    unfolding recovery_inv_def by blast
  have "pc_ok (eng s) (pcs s j)" using assms(1) by (rule life_inv_pc_ok)
  then have "kont_of (pcs s j) \<noteq> Some KRecover"
    using assms(3) by (auto simp: pc_ok_def elim!: kont_of.elims)
  with j show ?thesis by blast
qed

end
