(* ===== verification/Engine_Progress.thy ===== *)
theory Engine_Progress
  imports Engine_Life
begin

text \<open>
  Progress of the engine's coroutines: no deadlock on the transition lock, and every
  coroutine but a running generation ends after finitely many resumptions.
\<close>

section \<open>No deadlock\<close>

fun finished :: "pc \<Rightarrow> bool" where
  "finished Idle = True"
| "finished Returned = True"
| "finished (Raised x) = True"
| "finished _ = False"

text \<open>Whoever holds the lock can go on.\<close>

lemma holder_steps:
  "\<not> exited s \<Longrightarrow> holds_lock (pcs s i) \<Longrightarrow> \<exists>c t. step i c s = Some t"
proof (cases "pcs s i")
  case (DestroyAbort rs d)
  assume "\<not> exited s"
  with DestroyAbort show ?thesis
    by (cases rs) (auto simp: step_def intro!: exI[of _ Go])
next
  case (DestroyWait pids d)
  assume "\<not> exited s"
  with DestroyWait have "step i (Alive []) s = Some (destroy_kill i [] pids d s)"
    by (simp add: step_def)
  then show ?thesis by blast
next
  case (DestroyRelease d)
  assume "\<not> exited s"
  with DestroyRelease have "step i Go s = Some (destroy_release i d s)"
    by (simp add: step_def)
  then show ?thesis by blast
qed simp_all

text \<open>With the lock free, every unfinished coroutine can go on.\<close>

fun nudge :: "pc \<Rightarrow> choice" where
  "nudge StartCreate = CreateErr ConnectError"
| "nudge (Reload n k) = CreateErr ConnectError"
| "nudge (Generating rid str) = Stall"
| "nudge (DestroyWait pids d) = Alive []"
| "nudge _ = Go"

lemma free_steps:
  "\<not> exited s \<Longrightarrow> lock_free s \<Longrightarrow> \<not> finished (pcs s i) \<Longrightarrow> step i (nudge (pcs s i)) s \<noteq> None"
  by (cases "pcs s i") (auto simp: step_def split: list.splits)

lemma no_deadlock:
  assumes "lock_inv s" and "\<not> exited s" and "\<not> finished (pcs s i)"
  shows "\<exists>j c t. step j c s = Some t \<and> (j = i \<or> e_lock (eng s) = Some j)"
proof (cases "e_lock (eng s)")
  case None
  with assms free_steps[of s i] show ?thesis by (auto simp: lock_free_def)
next
  case (Some j)
  with assms(1) have "holds_lock (pcs s j)" by (simp add: lock_inv_def)
  with assms(2) Some show ?thesis using holder_steps by blast
qed

section \<open>Every coroutine ends\<close>

text \<open>
  \<open>stage\<close> bounds the suspension points a coroutine still has before it, the retries of a
  reload and the calls it goes on to make included; within the abort loop \<open>backlog\<close> counts
  the requests still to abort.
\<close>

fun kont_stage :: "kont \<Rightarrow> nat" where
  "kont_stage (KSwitchPaused new old) = 10"
| "kont_stage _ = 0"

fun after_stage :: "after_destroy \<Rightarrow> nat" where
  "after_stage AfterStart = 0"
| "after_stage AfterStop = 0"
| "after_stage (AfterReload k) = kont_stage k"
| "after_stage (AfterPause k) = kont_stage k + 9"
| "after_stage AfterRecover = 9"

fun stage :: "pc \<Rightarrow> nat" where
  "stage Idle = 0"
| "stage Returned = 0"
| "stage (Raised x) = 0"
| "stage (StartEntry path) = 6"
| "stage StartCreate = 5"
| "stage (StartFailed x) = 1"
| "stage StartLoaded = 4"
| "stage (PauseEntry u k) = kont_stage k + 16"
| "stage (PauseDrain k) = kont_stage k + 15"
| "stage (PauseDrained k) = kont_stage k + 14"
| "stage (PauseTeardown k) = kont_stage k + 13"
| "stage (ResumeEntry k) = kont_stage k + 10"
| "stage (Reload n k) = kont_stage k + 5 + 2 * (max_attempts - n)"
| "stage (ReloadRetry n k) = kont_stage k + 6 + 2 * (max_attempts - n)"
| "stage (ReloadLoaded k) = kont_stage k + 4"
| "stage (ReloadExhausted k) = 2"
| "stage Exiting = 1"
| "stage StopEntry = 4"
| "stage (SwitchEntry new) = 28"
| "stage (SwitchDrain new old) = 27"
| "stage RecoverEntry = 13"
| "stage (DestroyAbort rs d) = after_stage d + 3"
| "stage (DestroyWait pids d) = after_stage d + 2"
| "stage (DestroyRelease d) = after_stage d + 1"
| "stage (GenEntry rid str) = 1"
| "stage (Generating rid str) = 0"

fun backlog :: "pc \<Rightarrow> nat" where
  "backlog (DestroyAbort rs d) = length rs"
| "backlog _ = 0"

definition pc_order :: "(pc \<times> pc) set" where
  "pc_order = measures [stage, backlog]"

lemma wf_pc_order: "wf pc_order"
  by (simp add: pc_order_def)

lemma stage_return_pc: "stage (return_pc k) \<le> kont_stage k"
  by (simp add: return_pc_def split: kont.split)

lemma stage_after_pc: "stage (after_pc d b) \<le> after_stage d"
proof (cases d)
  case (AfterPause k)
  then show ?thesis using stage_return_pc[of k] by (simp add: after_pc_def max_attempts_def)
qed (use stage_return_pc in \<open>simp_all add: after_pc_def max_attempts_def\<close>)

lemma cstep_progress:
  assumes "cstep i c s t" and "\<not> in_flight (pcs s i)" and "\<not> exited t"
  shows "(pcs t i, pcs s i) \<in> pc_order"
  using assms(1)
proof cases
  case (CDestroyShutdown d)
  then show ?thesis using stage_after_pc[of d "e_pending_resume (eng s)"] by (auto simp: pc_order_def)
next
  case (CDestroyRelease d)
  then show ?thesis using stage_after_pc[of d "e_pending_resume (eng s)"] by (auto simp: pc_order_def)
next
  case (CReloadErr n k x)
  then show ?thesis by (auto simp: pc_order_def section_defs max_attempts_def)
next
  case (CReloadLoaded k)
  then show ?thesis
    using stage_return_pc[of k]
    by (auto simp: pc_order_def section_defs after_pc_def split: option.split)
next
  case (CPauseTeardown k)
  then show ?thesis
    using stage_after_pc[of "AfterPause k" "e_pending_resume (eng s)"]
    by (auto simp: pc_order_def section_defs)
next
  case (CPauseEntry u k)
  then show ?thesis
    using stage_return_pc[of k] by (auto simp: pc_order_def section_defs)
next
  case (CPauseDrained k)
  then show ?thesis
    using stage_return_pc[of k] by (auto simp: pc_order_def section_defs)
next
  case (CResumeEntry k)
  then show ?thesis
    using stage_return_pc[of k] by (auto simp: pc_order_def section_defs max_attempts_def)
next
  case CExiting
  with assms(3) show ?thesis by simp
qed (use assms(2) in \<open>auto simp: pc_order_def section_defs after_pc_def max_attempts_def
       split: option.split\<close>)

text \<open>So no coroutine but a running generation resumes for ever.\<close>

lemma coroutine_terminates:
  assumes "\<forall>n. step i (c n) (f n) = Some (g n) \<and> pcs (f (Suc n)) i = pcs (g n) i \<and>
      \<not> in_flight (pcs (f n) i) \<and> \<not> exited (g n)"
  shows False
proof -
  have down: "(pcs (f (Suc n)) i, pcs (f n) i) \<in> pc_order" for n
  proof -
    from assms have "step i (c n) (f n) = Some (g n)" "pcs (f (Suc n)) i = pcs (g n) i"
      "\<not> in_flight (pcs (f n) i)" "\<not> exited (g n)" by simp_all
    then show ?thesis using cstep_progress[of i "c n" "f n" "g n"] step_cstep by simp
  qed
  have "\<exists>h. \<forall>n. (h (Suc n), h n) \<in> pc_order"
    by (rule exI[of _ "\<lambda>n. pcs (f n) i"]) (simp add: down)
  then show False
    using wf_pc_order unfolding wf_iff_no_infinite_down_chain by blast
qed

end
