(* ===== verification/Engine_Ops.thy ===== *)
theory Engine_Ops
  imports Engine_Progress
begin

text \<open>
  The abstract class \<open>InferenceEngine\<close> as a record of operations, its contract as the
  locale \<open>inference_engine\<close>, and the two implementations: \<open>MockEngine\<close>, and
  \<open>VLLMEngine\<close> with each method driven alone from call to return.

  A method takes the object's state and returns the new one with its result; an exception
  keeps the changes made before it.
\<close>

section \<open>The interface\<close>

type_synonym 'e meth = "'e \<Rightarrow> 'e \<times> unit result"

record 'e engine_ops =
  op_start :: "string \<Rightarrow> 'e meth"
  op_pause :: "yield_urgency \<Rightarrow> 'e meth"
  op_resume :: "'e meth"
  op_stop :: "'e meth"
  op_switch :: "string \<Rightarrow> 'e meth"
  op_available :: "'e \<Rightarrow> bool"
  op_status :: "'e \<Rightarrow> engine_status"
  op_model :: "'e \<Rightarrow> string"
  op_start_paused :: "string \<Rightarrow> 'e \<Rightarrow> 'e"   \<comment> \<open>the two writes of \<open>EnginePool.start_paused\<close>\<close>

abbreviation op_state :: "('e, 'z) engine_ops_scheme \<Rightarrow> 'e \<Rightarrow> engine_state" where
  "op_state ops e \<equiv> es_state (op_status ops e)"

text \<open>
  The contract, for engines in a settled state \<open>ok\<close> (no call under way).  Its first part is
  what a caller observes, and a pool of engines keeps it too: a pause always succeeds and
  leaves the engine unavailable, a resume that returns leaves a paused engine running, a
  stopped engine stays down until started.
\<close>

locale engine_contract =
  fixes ops :: "'e engine_ops" and ok :: "'e \<Rightarrow> bool"
  assumes ok_start: "ok e \<Longrightarrow> op_state ops e = STOPPED \<Longrightarrow> ok (fst (op_start ops p e))"
    and ok_pause: "ok e \<Longrightarrow> ok (fst (op_pause ops u e))"
    and ok_resume: "ok e \<Longrightarrow> snd (op_resume ops e) = Inr () \<Longrightarrow> ok (fst (op_resume ops e))"
    and ok_stop: "ok e \<Longrightarrow> ok (fst (op_stop ops e))"
    and ok_start_paused: "ok e \<Longrightarrow> op_state ops e = STOPPED \<Longrightarrow> ok (op_start_paused ops p e)"
    and ok_switch: "ok e \<Longrightarrow> snd (op_switch ops p e) = Inr () \<Longrightarrow> ok (fst (op_switch ops p e))"
    and settled: "ok e \<Longrightarrow> op_state ops e \<in> {STOPPED, RUNNING, PAUSED}"
    and available: "ok e \<Longrightarrow> op_available ops e \<longleftrightarrow> op_state ops e = RUNNING"
    and start_running: "ok e \<Longrightarrow> op_state ops e = STOPPED \<Longrightarrow>
      snd (op_start ops p e) = Inr () \<Longrightarrow> op_state ops (fst (op_start ops p e)) = RUNNING"
    and pause_returns: "ok e \<Longrightarrow> snd (op_pause ops u e) = Inr ()"
    and pause_state: "ok e \<Longrightarrow> op_state ops (fst (op_pause ops u e)) =
      (if op_state ops e = RUNNING then PAUSED else op_state ops e)"
    and resume_state: "ok e \<Longrightarrow> snd (op_resume ops e) = Inr () \<Longrightarrow>
      op_state ops (fst (op_resume ops e)) =
        (if op_state ops e = PAUSED then RUNNING else op_state ops e)"
    and resume_model: "ok e \<Longrightarrow> snd (op_resume ops e) = Inr () \<Longrightarrow>
      op_model ops (fst (op_resume ops e)) = op_model ops e"
    and stop_stopped: "ok e \<Longrightarrow> op_state ops (fst (op_stop ops e)) = STOPPED"
    and start_paused: "ok e \<Longrightarrow> op_state ops (op_start_paused ops p e) = PAUSED"
begin

text \<open>No request reaches an engine that was paused or stopped.\<close>

lemma pause_unavailable: "ok e \<Longrightarrow> \<not> op_available ops (fst (op_pause ops u e))"
  by (simp add: available ok_pause pause_state)

lemma stop_unavailable: "ok e \<Longrightarrow> \<not> op_available ops (fst (op_stop ops e))"
  by (simp add: available ok_stop stop_stopped)

text \<open>A pause and a resume bring a running engine back with its model.\<close>

lemma pause_resume:
  assumes "ok e" and "op_state ops e = RUNNING"
    and "snd (op_resume ops (fst (op_pause ops u e))) = Inr ()"
  shows "op_state ops (fst (op_resume ops (fst (op_pause ops u e)))) = RUNNING"
  using assms by (simp add: resume_state ok_pause pause_state)

lemma start_paused_resume:
  assumes "ok e" and "op_state ops e = STOPPED"
    and "snd (op_resume ops (op_start_paused ops p e)) = Inr ()"
  shows "op_available ops (fst (op_resume ops (op_start_paused ops p e)))"
  using assms by (simp add: available ok_resume ok_start_paused resume_state start_paused)

end

text \<open>
  A single engine promises more: a call that does not apply changes nothing at all, and a
  switch that returns has installed the model, on an engine that runs unless it was stopped.
\<close>

locale inference_engine = engine_contract ops ok
  for ops :: "'e engine_ops" and ok :: "'e \<Rightarrow> bool" +
  assumes pause_other: "ok e \<Longrightarrow> op_state ops e \<noteq> RUNNING \<Longrightarrow> fst (op_pause ops u e) = e"
    and resume_other: "ok e \<Longrightarrow> op_state ops e \<noteq> PAUSED \<Longrightarrow> op_resume ops e = (e, Inr ())"
    and switch_current: "ok e \<Longrightarrow> op_state ops e = RUNNING \<Longrightarrow> op_model ops e = p \<Longrightarrow>
      op_switch ops p e = (e, Inr ())"
    and switch_model: "ok e \<Longrightarrow> snd (op_switch ops p e) = Inr () \<Longrightarrow>
      op_model ops (fst (op_switch ops p e)) = p"
    and switch_state: "ok e \<Longrightarrow> snd (op_switch ops p e) = Inr () \<Longrightarrow>
      op_state ops (fst (op_switch ops p e)) =
        (if op_state ops e = STOPPED then STOPPED else RUNNING)"
begin

text \<open>Pausing is idempotent: the second request changes nothing.\<close>

lemma pause_idem:
  assumes "ok e"
  shows "op_pause ops v (fst (op_pause ops u e)) = (fst (op_pause ops u e), Inr ())"
  using assms
  by (simp add: prod_eq_iff pause_other pause_returns ok_pause pause_state)

text \<open>So is switching to one model.\<close>

lemma switch_idem:
  assumes "ok e" and "op_state ops e \<noteq> STOPPED" and "snd (op_switch ops p e) = Inr ()"
  shows "op_switch ops p (fst (op_switch ops p e)) = (fst (op_switch ops p e), Inr ())"
  using assms by (simp add: switch_current ok_switch switch_model switch_state)

end

section \<open>\<open>MockEngine\<close>\<close>

record mock =
  m_state :: engine_state
  m_model :: string
  m_active_requests :: int
  m_latency :: rat
  m_gpu_id :: int

definition mock_init :: "rat \<Rightarrow> int \<Rightarrow> mock" where
  "mock_init latency gpu =
     \<lparr>m_state = STOPPED, m_model = '''', m_active_requests = 0, m_latency = latency,
      m_gpu_id = gpu\<rparr>"

text \<open>The states before and after each simulated delay are written in order.\<close>

definition mock_set :: "engine_state \<Rightarrow> mock \<Rightarrow> mock" where
  "mock_set st e = e\<lparr>m_state := st\<rparr>"

definition mock_start :: "string \<Rightarrow> mock meth" where
  "mock_start path e =
     (mock_set RUNNING ((mock_set STARTING e)\<lparr>m_model := path\<rparr>), Inr ())"

definition mock_pause :: "yield_urgency \<Rightarrow> mock meth" where
  "mock_pause u e =
     (if m_state e \<noteq> RUNNING then e else mock_set PAUSED (mock_set UNLOADING e), Inr ())"

definition mock_resume :: "mock meth" where
  "mock_resume e =
     (if m_state e \<noteq> PAUSED then e else mock_set RUNNING (mock_set LOADING e), Inr ())"

definition mock_stop :: "mock meth" where
  "mock_stop e = ((mock_set STOPPED e)\<lparr>m_model := ''''\<rparr>, Inr ())"

definition mock_switch_model :: "string \<Rightarrow> mock meth" where
  "mock_switch_model new e =
     (if m_model e = new \<and> m_state e = RUNNING then (e, Inr ())
      else mock_resume ((fst (mock_pause NORMAL e))\<lparr>m_model := new\<rparr>))"

definition mock_is_available :: "mock \<Rightarrow> bool" where
  "mock_is_available e \<longleftrightarrow> m_state e = RUNNING"

definition mock_status :: "mock \<Rightarrow> engine_status" where
  "mock_status e =
     \<lparr>es_state = m_state e, es_active_requests = m_active_requests e,
      es_gpu_utilization_pct = 0, es_loaded_model = m_model e, es_gpu_id = m_gpu_id e\<rparr>"

definition mock_start_paused :: "string \<Rightarrow> mock \<Rightarrow> mock" where
  "mock_start_paused path e = e\<lparr>m_model := path, m_state := PAUSED\<rparr>"

definition mock_ops :: "mock engine_ops" where
  "mock_ops =
     \<lparr>op_start = mock_start, op_pause = mock_pause, op_resume = mock_resume,
      op_stop = mock_stop, op_switch = mock_switch_model, op_available = mock_is_available,
      op_status = mock_status, op_model = m_model, op_start_paused = mock_start_paused\<rparr>"

definition mock_settled :: "mock \<Rightarrow> bool" where
  "mock_settled e \<longleftrightarrow> m_state e \<in> {STOPPED, RUNNING, PAUSED}"

lemmas mock_defs =
  mock_ops_def mock_settled_def mock_set_def mock_start_def mock_pause_def mock_resume_def
  mock_stop_def mock_switch_model_def mock_is_available_def mock_status_def mock_start_paused_def

interpretation mock: inference_engine mock_ops mock_settled
  by unfold_locales (auto simp: mock_defs)

section \<open>\<open>VLLMEngine\<close>, one call at a time\<close>

text \<open>
  What the world answers while a call runs alone: for each construction of the vLLM engine
  (attempt 0 is \<open>start\<close>'s) its handle and the two child scans, or \<open>None\<close> if it fails
  with \<open>wd_error\<close>; and the children that survive a shutdown.
\<close>

record world =
  wd_create :: "nat \<Rightarrow> (nat \<times> int list option \<times> int list option) option"
  wd_error :: py_exn
  wd_alive :: "int list"

definition create_choice :: "world \<Rightarrow> nat \<Rightarrow> choice" where
  "create_choice w n =
     (case wd_create w n of Some (h, b, a) \<Rightarrow> CreateOk h b a | None \<Rightarrow> CreateErr (wd_error w))"

fun world_choice :: "world \<Rightarrow> pc \<Rightarrow> choice" where
  "world_choice w StartCreate = create_choice w 0"
| "world_choice w (Reload n k) = create_choice w n"
| "world_choice w (DestroyWait pids d) = Alive (wd_alive w)"
| "world_choice w _ = Go"

text \<open>Task 0 runs until it ends or the process exits.\<close>

function drive :: "world \<Rightarrow> sys \<Rightarrow> sys" where
  "drive w s =
     (if in_flight (pcs s 0) then s
      else case step 0 (world_choice w (pcs s 0)) s of
             None \<Rightarrow> s
           | Some t \<Rightarrow> if exited t then t else drive w t)"
  by pat_completeness auto
termination
  by (relation "inv_image pc_order (\<lambda>(w, s). pcs s 0)")
     (auto simp: wf_pc_order intro: cstep_progress step_cstep)

declare drive.simps [simp del]

definition run_call :: "world \<Rightarrow> command \<Rightarrow> vllm meth" where
  "run_call w cmd e =
     (let s = drive w (goto 0 (entry cmd) (sys_of e)) in
      (eng s, if exited s then Inl ProcessExit
              else case pcs s 0 of Raised x \<Rightarrow> Inl x | _ \<Rightarrow> Inr ()))"

definition vllm_ops :: "world \<Rightarrow> vllm engine_ops" where
  "vllm_ops w =
     \<lparr>op_start = (\<lambda>p. run_call w (CStart p)), op_pause = (\<lambda>u. run_call w (CPause u)),
      op_resume = run_call w CResume, op_stop = run_call w CStop,
      op_switch = (\<lambda>m. run_call w (CSwitch m)), op_available = is_available,
      op_status = status, op_model = current_model, op_start_paused = start_paused_engine\<rparr>"

text \<open>Driving is firing labels, so what a call does alone is one of the runs of the engine.\<close>

lemma drive_execute:
  "\<exists>cs. execute (map (LRun 0) cs) s = Some (drive w s)"
proof (induction w s rule: drive.induct)
  case (1 w s)
  show ?case
  proof (cases "in_flight (pcs s 0) \<or> step 0 (world_choice w (pcs s 0)) s = None")
    case True
    then have "drive w s = s" by (subst drive.simps) auto
    then show ?thesis by (auto intro: exI[of _ "[]"])
  next
    case False
    then obtain t where t: "step 0 (world_choice w (pcs s 0)) s = Some t" "\<not> in_flight (pcs s 0)"
      by auto
    show ?thesis
    proof (cases "exited t")
      case True
      with t have "drive w s = t" by (subst drive.simps) simp
      with t show ?thesis by (auto intro!: exI[of _ "[world_choice w (pcs s 0)]"])
    next
      case False
      with t "1.IH" obtain cs where "execute (map (LRun 0) cs) t = Some (drive w t)" by blast
      moreover from False t have "drive w s = drive w t" by (subst drive.simps) simp
      ultimately show ?thesis
        using t by (auto intro!: exI[of _ "world_choice w (pcs s 0) # cs"])
    qed
  qed
qed

end
