(* ===== verification/Engine_Solo.thy ===== *)
theory Engine_Solo
  imports Engine_Ops
begin

text \<open>
  What each method of \<open>VLLMEngine\<close> does when it runs alone on a settled engine, branch by
  branch, and the proof that \<open>VLLMEngine\<close> keeps the contract of the pool.
\<close>

subsection \<open>What each call computes\<close>

lemma drive_go:
  "step 0 (world_choice w (pcs s 0)) s = Some t \<Longrightarrow> \<not> in_flight (pcs s 0) \<Longrightarrow> \<not> exited t \<Longrightarrow>
   drive w s = drive w t"
  by (subst drive.simps) simp

lemma drive_end: "finished (pcs s 0) \<Longrightarrow> drive w s = s"
  by (subst drive.simps) (cases "pcs s 0"; simp add: step_def)

lemma drive_exit:
  "pcs s 0 = Exiting \<Longrightarrow> \<not> exited s \<Longrightarrow> drive w s = s\<lparr>exited := True\<rparr>"
  by (subst drive.simps) (simp add: step_def)

lemma drive_destroy:
  assumes "pcs s 0 = DestroyAbort rs d" and "\<not> exited s"
  shows "\<exists>t. drive w s = drive w t \<and> \<not> exited t \<and>
    eng t = after_eng d ((eng s)\<lparr>e_inflight := [], e_engine := None, e_child_pids := []\<rparr>) \<and>
    pcs t 0 = after_pc d (e_pending_resume (eng s))"
  using assms
proof (induction rs arbitrary: s)
  case (Cons r rs)
  let ?t = "goto 0 (DestroyAbort rs d) s"
  have "drive w s = drive w ?t"
    by (rule drive_go) (use Cons.prems in \<open>simp_all add: step_def\<close>)
  with Cons.IH[of ?t] Cons.prems show ?case by auto
next
  case Nil
  let ?t = "destroy_shutdown 0 d s"
  have 1: "drive w s = drive w ?t"
    by (rule drive_go) (use Nil in \<open>simp_all add: step_def\<close>)
  show ?case
  proof (cases "e_child_pids (eng s) = []")
    case True
    with 1 Nil show ?thesis by (intro exI[of _ ?t]) auto
  next
    case False
    let ?pids = "e_child_pids (eng s)"
    let ?u = "destroy_kill 0 (wd_alive w) ?pids d ?t"
    let ?v = "destroy_release 0 d ?u"
    have 2: "drive w ?t = drive w ?u"
      by (rule drive_go) (use Nil False in \<open>simp_all add: step_def\<close>)
    have 3: "drive w ?u = drive w ?v"
      by (rule drive_go) (use Nil False in \<open>simp_all add: step_def\<close>)
    from 1 2 3 have "drive w s = drive w ?v" by simp
    moreover have "(eng s)\<lparr>e_inflight := [], e_engine := None, e_child_pids := []\<rparr> =
      (eng s)\<lparr>e_inflight := [], e_child_pids := [], e_engine := None\<rparr>" by simp
    ultimately show ?thesis using False Nil by (intro exI[of _ ?v]) simp
  qed
qed

text \<open>The settled states: no call under way, no flag pending.\<close>

definition vllm_settled :: "vllm \<Rightarrow> bool" where
  "vllm_settled e \<longleftrightarrow>
     e_state e \<in> {STOPPED, RUNNING, PAUSED} \<and> eng_ok e \<and> e_lock e = None \<and> e_accepting e \<and>
     \<not> e_recovering e"

definition core_released :: "engine_state \<Rightarrow> vllm \<Rightarrow> vllm" where
  "core_released st e =
     e\<lparr>e_state := st, e_engine := None, e_child_pids := [], e_inflight := []\<rparr>"

lemma settled_flags:
  "vllm_settled e \<Longrightarrow> e_pending_pause e = None \<and> \<not> e_pending_resume e \<and> e_lock e = None"
  by (auto simp: vllm_settled_def eng_ok_def)

lemma drive_teardown:
  assumes "pcs s 0 = PauseTeardown k" and "\<not> exited s" and "e_engine (eng s) \<noteq> None"
    and "e_lock (eng s) = None" and "\<not> e_pending_resume (eng s)"
  shows "\<exists>t. drive w s = drive w t \<and> \<not> exited t \<and> pcs t 0 = return_pc k \<and>
    eng t = return_eng k (core_released PAUSED ((eng s)\<lparr>e_accepting := True\<rparr>))"
proof -
  let ?t = "pause_teardown 0 k s"
  have 1: "drive w s = drive w ?t"
    by (rule drive_go) (use assms in \<open>simp_all add: step_def lock_free_def section_defs\<close>)
  obtain u where u: "drive w ?t = drive w u" "\<not> exited u"
    "eng u = after_eng (AfterPause k)
       ((eng ?t)\<lparr>e_inflight := [], e_engine := None, e_child_pids := []\<rparr>)"
    "pcs u 0 = after_pc (AfterPause k) (e_pending_resume (eng ?t))"
    using drive_destroy[of ?t "e_inflight (eng s)" "AfterPause k" w] assms
    by (auto simp: section_defs)
  have "pcs u 0 = return_pc k"
    using u(4) assms by (simp add: section_defs after_pc_def)
  moreover have "eng u = return_eng k (core_released PAUSED ((eng s)\<lparr>e_accepting := True\<rparr>))"
    using u(3) assms
    by (simp add: section_defs after_eng_def core_released_def) (rule arg_cong; simp)
  ultimately show ?thesis using 1 u(1,2) by auto
qed

text \<open>\<open>pause\<close> of a running engine, for every caller: both urgencies end in the teardown.\<close>

lemma drive_pause:
  assumes "pcs s 0 = PauseEntry u k" and "\<not> exited s" and "e_state (eng s) = RUNNING"
    and "e_engine (eng s) \<noteq> None" and "e_lock (eng s) = None" and "\<not> e_pending_resume (eng s)"
  shows "\<exists>t. drive w s = drive w t \<and> \<not> exited t \<and> pcs t 0 = return_pc k \<and>
    eng t = return_eng k (core_released PAUSED ((eng s)\<lparr>e_accepting := True\<rparr>))"
proof -
  let ?t = "pause_entry 0 u k s"
  have 1: "drive w s = drive w ?t"
    by (rule drive_go) (use assms in \<open>simp_all add: step_def lock_free_def section_defs\<close>)
  show ?thesis
  proof (cases u)
    case IMMEDIATE
    have "\<exists>t. drive w ?t = drive w t \<and> \<not> exited t \<and> pcs t 0 = return_pc k \<and>
        eng t = return_eng k (core_released PAUSED ((eng ?t)\<lparr>e_accepting := True\<rparr>))"
      by (rule drive_teardown) (use IMMEDIATE assms in \<open>simp_all add: section_defs\<close>)
    with 1 show ?thesis using IMMEDIATE assms by (simp add: section_defs core_released_def)
  next
    case NORMAL
    let ?v = "goto 0 (PauseDrained k) ?t"
    let ?x = "pause_drained 0 k ?v"
    have 2: "drive w ?t = drive w ?v"
      by (rule drive_go) (use assms NORMAL in \<open>simp_all add: step_def section_defs\<close>)
    have 3: "drive w ?v = drive w ?x"
      by (rule drive_go)
         (use assms NORMAL in \<open>simp_all add: step_def lock_free_def section_defs\<close>)
    have "\<exists>t. drive w ?x = drive w t \<and> \<not> exited t \<and> pcs t 0 = return_pc k \<and>
        eng t = return_eng k (core_released PAUSED ((eng ?x)\<lparr>e_accepting := True\<rparr>))"
      by (rule drive_teardown) (use NORMAL assms in \<open>simp_all add: section_defs\<close>)
    with 1 2 3 show ?thesis using NORMAL assms by (simp add: section_defs core_released_def)
  qed
qed

lemma settled_running:
  "vllm_settled e \<Longrightarrow> e_state e = RUNNING \<Longrightarrow> e_engine e \<noteq> None"
  by (auto simp: vllm_settled_def eng_ok_def)

lemma core_released_accepting:
  "vllm_settled e \<Longrightarrow> core_released st (e\<lparr>e_accepting := b\<rparr>\<lparr>e_accepting := True\<rparr>) =
     core_released st e"
  by (simp add: core_released_def vllm_settled_def)

lemma run_pause_running:
  assumes "vllm_settled e" and "e_state e = RUNNING"
  shows "run_call w (CPause u) e = (core_released PAUSED e, Inr ())"
proof -
  let ?s = "goto 0 (entry (CPause u)) (sys_of e)"
  obtain t where t: "drive w ?s = drive w t" "\<not> exited t" "pcs t 0 = Returned"
    "eng t = core_released PAUSED (e\<lparr>e_accepting := True\<rparr>)"
    using drive_pause[of ?s u KRet w] settled_flags[OF assms(1)] settled_running[OF assms] assms
    by (auto simp: sys_of_def return_pc_def return_eng_def)
  have "drive w t = t" by (rule drive_end) (simp add: t)
  with t core_released_accepting[OF assms(1)] show ?thesis by (simp add: run_call_def)
qed

lemma run_pause_other:
  assumes "vllm_settled e" and "e_state e \<noteq> RUNNING"
  shows "run_call w (CPause u) e = (e, Inr ())"
proof -
  note fl = settled_flags[OF assms(1)]
  have st: "e_state e \<in> {STOPPED, PAUSED}" using assms by (auto simp: vllm_settled_def)
  let ?s = "goto 0 (entry (CPause u)) (sys_of e)"
  let ?t = "pause_entry 0 u KRet ?s"
  have "drive w ?s = drive w ?t"
    by (rule drive_go)
       (use fl in \<open>simp_all add: step_def lock_free_def sys_of_def section_defs\<close>)
  moreover have "drive w ?t = ?t"
    by (rule drive_end) (use st in \<open>auto simp: section_defs sys_of_def return_pc_def\<close>)
  ultimately show ?thesis
    using st by (auto simp: run_call_def section_defs sys_of_def return_pc_def return_eng_def)
qed

text \<open>A reload runs up to three attempts; \<open>reload_attempt\<close> is the one that succeeds.\<close>

definition reload_attempt :: "world \<Rightarrow> (nat \<times> int list option \<times> int list option) option" where
  "reload_attempt w =
     (case wd_create w 1 of Some r \<Rightarrow> Some r | None \<Rightarrow>
       (case wd_create w 2 of Some r \<Rightarrow> Some r | None \<Rightarrow> wd_create w 3))"

definition core_loaded :: "nat \<times> int list option \<times> int list option \<Rightarrow> vllm \<Rightarrow> vllm" where
  "core_loaded r e =
     (case r of (h, b, a) \<Rightarrow>
        e\<lparr>e_state := RUNNING, e_engine := Some h, e_child_pids := child_delta b a\<rparr>)"

text \<open>The continuations after which a reload is the end of its call.\<close>

definition final_kont :: "kont \<Rightarrow> bool" where
  "final_kont k \<longleftrightarrow> k \<in> {KRet, KSwitchResumed, KRecover}"

lemma final_kont_pc: "final_kont k \<Longrightarrow> return_pc k = Returned"
  by (auto simp: final_kont_def return_pc_def)

lemma drive_reload_ok:
  assumes "final_kont k" and "pcs s 0 = Reload n k" and "\<not> exited s" and "wd_create w n = Some r"
    and "e_lock (eng s) = None" and "e_pending_pause (eng s) = None"
  shows "\<exists>t. drive w s = t \<and> \<not> exited t \<and> pcs t 0 = Returned \<and> eng t = return_eng k (core_loaded r (eng s))"
proof -
  obtain h b a where r: "r = (h, b, a)" by (cases r) auto
  let ?t = "goto 0 (ReloadLoaded k) (engine_created h b a s)"
  let ?u = "reload_loaded 0 k ?t"
  have "drive w s = drive w ?t"
    by (rule drive_go) (use assms r in \<open>simp_all add: step_def create_choice_def\<close>)
  also have "\<dots> = drive w ?u"
    by (rule drive_go) (use assms in \<open>simp_all add: step_def lock_free_def section_defs\<close>)
  also have "\<dots> = ?u"
    by (rule drive_end) (use assms in \<open>simp add: section_defs final_kont_pc\<close>)
  finally show ?thesis
    using assms r by (auto simp: section_defs return_eng_def core_loaded_def final_kont_def
      return_pc_def)
qed

lemma drive_reload_retry:
  assumes "pcs s 0 = Reload n k" and "\<not> exited s" and "wd_create w n = None" and "n < 3"
  shows "\<exists>t. drive w s = drive w t \<and> \<not> exited t \<and> pcs t 0 = Reload (n + 1) k \<and>
    eng t = (eng s)\<lparr>e_engine := None\<rparr>"
proof -
  let ?t = "reload_failed 0 n k (set_cuda_visible s)"
  let ?u = "goto 0 (Reload (n + 1) k) ?t"
  have "drive w s = drive w ?t"
    by (rule drive_go)
       (use assms in \<open>simp_all add: step_def create_choice_def section_defs max_attempts_def\<close>)
  also have "\<dots> = drive w ?u"
    by (rule drive_go) (use assms in \<open>simp_all add: step_def section_defs max_attempts_def\<close>)
  finally show ?thesis
    using assms by (intro exI[of _ ?u]) (simp add: section_defs max_attempts_def)
qed

lemma drive_reload_exit:
  assumes "pcs s 0 = Reload 3 k" and "\<not> exited s" and "wd_create w 3 = None"
    and "e_lock (eng s) = None"
  shows "\<exists>t. drive w s = t \<and> exited t"
proof -
  let ?t = "reload_failed 0 3 k (set_cuda_visible s)"
  let ?u = "reload_exhausted 0 ?t"
  have "drive w s = drive w ?t"
    by (rule drive_go)
       (use assms in \<open>simp_all add: step_def create_choice_def section_defs max_attempts_def\<close>)
  also have "\<dots> = drive w ?u"
    by (rule drive_go)
       (use assms in \<open>simp_all add: step_def lock_free_def section_defs max_attempts_def\<close>)
  also have "\<dots> = ?u\<lparr>exited := True\<rparr>"
    by (rule drive_exit) (use assms in \<open>simp_all add: section_defs max_attempts_def\<close>)
  finally show ?thesis by simp
qed

lemma drive_reload:
  assumes "pcs s 0 = Reload 1 k" and "\<not> exited s" and "final_kont k"
    and "e_lock (eng s) = None" and "e_pending_pause (eng s) = None"
  shows "case reload_attempt w of
      Some r \<Rightarrow> \<not> exited (drive w s) \<and> pcs (drive w s) 0 = Returned \<and>
        eng (drive w s) = return_eng k (core_loaded r (eng s))
    | None \<Rightarrow> exited (drive w s)"
proof (cases "wd_create w 1")
  case (Some r)
  with drive_reload_ok[OF assms(3,1,2) Some assms(4,5)] show ?thesis
    by (auto simp: reload_attempt_def)
next
  case None
  then obtain t where t: "drive w s = drive w t" "\<not> exited t" "pcs t 0 = Reload 2 k"
    "eng t = (eng s)\<lparr>e_engine := None\<rparr>"
    using drive_reload_retry[OF assms(1,2) None] by (auto simp: numeral_2_eq_2)
  have loaded: "core_loaded r ((eng s)\<lparr>e_engine := None\<rparr>) = core_loaded r (eng s)" for r
    by (cases r) (simp add: core_loaded_def)
  show ?thesis
  proof (cases "wd_create w 2")
    case (Some r)
    have "\<exists>u. drive w t = u \<and> \<not> exited u \<and> pcs u 0 = Returned \<and> eng u = return_eng k (core_loaded r (eng t))"
      by (rule drive_reload_ok[OF assms(3) t(3) t(2) Some]) (simp_all add: t(4) assms)
    with None Some t(1,4) loaded show ?thesis by (auto simp: reload_attempt_def)
  next
    case None2: None
    then obtain u where u: "drive w t = drive w u" "\<not> exited u" "pcs u 0 = Reload 3 k"
      "eng u = (eng s)\<lparr>e_engine := None\<rparr>"
      using drive_reload_retry[OF t(3) t(2) None2] t(4) by (auto simp: numeral_3_eq_3)
    show ?thesis
    proof (cases "wd_create w 3")
      case (Some r)
      have "\<exists>v. drive w u = v \<and> \<not> exited v \<and> pcs v 0 = Returned \<and> eng v = return_eng k (core_loaded r (eng u))"
        by (rule drive_reload_ok[OF assms(3) u(3) u(2) Some]) (simp_all add: u(4) assms)
      with None None2 Some t(1) u(1,4) loaded show ?thesis by (auto simp: reload_attempt_def)
    next
      case None3: None
      have "\<exists>v. drive w u = v \<and> exited v"
        by (rule drive_reload_exit[OF u(3) u(2) None3]) (simp add: u(4) assms)
      with None None2 None3 t(1) u(1) show ?thesis by (auto simp: reload_attempt_def)
    qed
  qed
qed

lemma drive_resume:
  assumes "pcs s 0 = ResumeEntry k" and "\<not> exited s" and "final_kont k"
    and "e_state (eng s) = PAUSED" and "e_lock (eng s) = None" and "e_pending_pause (eng s) = None"
  shows "case reload_attempt w of
      Some r \<Rightarrow> \<not> exited (drive w s) \<and> pcs (drive w s) 0 = Returned \<and>
        eng (drive w s) = return_eng k (core_loaded r (eng s))
    | None \<Rightarrow> exited (drive w s)"
proof -
  let ?t = "resume_entry 0 k s"
  have 1: "drive w s = drive w ?t"
    by (rule drive_go) (use assms in \<open>simp_all add: step_def lock_free_def section_defs\<close>)
  have "case reload_attempt w of
      Some r \<Rightarrow> \<not> exited (drive w ?t) \<and> pcs (drive w ?t) 0 = Returned \<and>
        eng (drive w ?t) = return_eng k (core_loaded r (eng ?t))
    | None \<Rightarrow> exited (drive w ?t)"
    by (rule drive_reload) (use assms in \<open>simp_all add: section_defs\<close>)
  moreover have "core_loaded r (eng ?t) = core_loaded r (eng s)" for r
    using assms by (cases r) (simp add: section_defs core_loaded_def)
  ultimately show ?thesis unfolding 1 by (simp split: option.splits)
qed

lemma run_resume_paused:
  assumes "vllm_settled e" and "e_state e = PAUSED"
  shows "case reload_attempt w of
      Some r \<Rightarrow> run_call w CResume e = (core_loaded r e, Inr ())
    | None \<Rightarrow> snd (run_call w CResume e) = Inl ProcessExit"
  using drive_resume[of "goto 0 (entry CResume) (sys_of e)" KRet w] settled_flags[OF assms(1)]
    assms(2)
  by (simp add: run_call_def sys_of_def final_kont_def return_eng_def split: option.splits)

lemma run_resume_other:
  assumes "vllm_settled e" and "e_state e \<noteq> PAUSED"
  shows "run_call w CResume e = (e, Inr ())"
proof -
  note fl = settled_flags[OF assms(1)]
  have st: "e_state e \<noteq> PAUSED" "e_state e \<noteq> UNLOADING"
    using assms by (auto simp: vllm_settled_def)
  let ?s = "goto 0 (entry CResume) (sys_of e)"
  let ?t = "resume_entry 0 KRet ?s"
  have "drive w ?s = drive w ?t"
    by (rule drive_go)
       (use fl st in \<open>simp_all add: step_def lock_free_def sys_of_def section_defs\<close>)
  moreover have "drive w ?t = ?t"
    by (rule drive_end) (use st in \<open>simp add: section_defs sys_of_def return_pc_def\<close>)
  ultimately show ?thesis
    using st by (simp add: run_call_def section_defs sys_of_def return_pc_def return_eng_def)
qed

text \<open>
  \<open>switch_model\<close>: a running engine is paused first; whatever was paused is then resumed
  with the new model, so a switch also wakes an engine that was paused before it.
\<close>

lemma drive_switch_resume:
  assumes "pcs s 0 = ResumeEntry KSwitchResumed" and "\<not> exited s" and "e_state (eng s) = PAUSED"
    and "e_lock (eng s) = None" and "e_pending_pause (eng s) = None"
  shows "case reload_attempt w of
      Some r \<Rightarrow> \<not> exited (drive w s) \<and> pcs (drive w s) 0 = Returned \<and>
        eng (drive w s) = core_loaded r ((eng s)\<lparr>e_accepting := True\<rparr>)
    | None \<Rightarrow> exited (drive w s)"
proof -
  have "return_eng KSwitchResumed (core_loaded r (eng s)) =
      core_loaded r ((eng s)\<lparr>e_accepting := True\<rparr>)" for r
    by (cases r) (simp add: return_eng_def core_loaded_def)
  with drive_resume[OF assms(1,2) _ assms(3-5), of w] show ?thesis
    by (simp add: final_kont_def split: option.splits)
qed

lemma run_switch_current:
  assumes "vllm_settled e" and "e_state e = RUNNING" and "e_model e = new"
  shows "run_call w (CSwitch new) e = (e, Inr ())"
proof -
  let ?s = "goto 0 (entry (CSwitch new)) (sys_of e)"
  let ?t = "switch_entry 0 new ?s"
  have "drive w ?s = drive w ?t"
    by (rule drive_go) (use assms in \<open>simp_all add: step_def sys_of_def section_defs\<close>)
  moreover have "drive w ?t = ?t"
    by (rule drive_end) (use assms in \<open>simp add: section_defs sys_of_def\<close>)
  ultimately show ?thesis
    using assms by (simp add: run_call_def section_defs sys_of_def)
qed

text \<open>Up to the call of \<open>pause\<close>.\<close>

lemma drive_switch_head:
  assumes "e_lock e = None" and "\<not> (e_model e = new \<and> e_state e = RUNNING)"
  shows "\<exists>t. drive w (goto 0 (entry (CSwitch new)) (sys_of e)) = drive w t \<and> \<not> exited t \<and>
    pcs t 0 = PauseEntry NORMAL (KSwitchPaused new (e_model e)) \<and>
    eng t = e\<lparr>e_accepting := False\<rparr>"
proof -
  let ?s = "goto 0 (entry (CSwitch new)) (sys_of e)"
  let ?t = "switch_entry 0 new ?s"
  let ?u = "switch_drained 0 new (e_model e) ?t"
  have "drive w ?s = drive w ?t"
    by (rule drive_go) (use assms in \<open>auto simp: step_def sys_of_def section_defs\<close>)
  also have "\<dots> = drive w ?u"
    by (rule drive_go) (use assms in \<open>auto simp: step_def sys_of_def section_defs\<close>)
  finally show ?thesis
    using assms by (intro exI[of _ ?u]) (auto simp: sys_of_def section_defs)
qed

lemma run_switch_stopped:
  assumes "vllm_settled e" and "e_state e = STOPPED"
  shows "run_call w (CSwitch new) e = (e\<lparr>e_model := new\<rparr>, Inr ())"
proof -
  note fl = settled_flags[OF assms(1)]
  obtain t where t: "drive w (goto 0 (entry (CSwitch new)) (sys_of e)) = drive w t" "\<not> exited t"
    "pcs t 0 = PauseEntry NORMAL (KSwitchPaused new (e_model e))"
    "eng t = e\<lparr>e_accepting := False\<rparr>"
    using drive_switch_head[of e new w] fl assms(2) by auto
  let ?u = "pause_entry 0 NORMAL (KSwitchPaused new (e_model e)) t"
  let ?v = "resume_entry 0 KSwitchResumed ?u"
  have "drive w t = drive w ?u"
    by (rule drive_go) (use t fl in \<open>simp_all add: step_def lock_free_def section_defs\<close>)
  also have "\<dots> = drive w ?v"
    by (rule drive_go)
       (use t fl assms(2) in \<open>simp_all add: step_def lock_free_def section_defs return_pc_def
          return_eng_def\<close>)
  also have "\<dots> = ?v"
    by (rule drive_end)
       (use t assms(2) in \<open>simp add: section_defs return_pc_def return_eng_def\<close>)
  finally show ?thesis
    using t assms
    by (simp add: run_call_def section_defs return_pc_def return_eng_def vllm_settled_def)
qed

definition switch_down :: "string \<Rightarrow> vllm \<Rightarrow> vllm" where
  "switch_down new e =
     (if e_state e = RUNNING then core_released PAUSED e else e)\<lparr>e_model := new\<rparr>"

lemma run_switch_up:
  assumes "vllm_settled e" and "e_state e \<noteq> STOPPED"
    and "\<not> (e_model e = new \<and> e_state e = RUNNING)"
  shows "case reload_attempt w of
      Some r \<Rightarrow> run_call w (CSwitch new) e = (core_loaded r (switch_down new e), Inr ())
    | None \<Rightarrow> snd (run_call w (CSwitch new) e) = Inl ProcessExit"
proof -
  note fl = settled_flags[OF assms(1)]
  have acc: "e_accepting e" and st: "e_state e = RUNNING \<or> e_state e = PAUSED"
    using assms(1,2) by (auto simp: vllm_settled_def)
  let ?k = "KSwitchPaused new (e_model e)"
  obtain t where t: "drive w (goto 0 (entry (CSwitch new)) (sys_of e)) = drive w t" "\<not> exited t"
    "pcs t 0 = PauseEntry NORMAL ?k" "eng t = e\<lparr>e_accepting := False\<rparr>"
    using drive_switch_head[of e new w] fl assms(3) by auto
  have "\<exists>u b. drive w t = drive w u \<and> \<not> exited u \<and> pcs u 0 = ResumeEntry KSwitchResumed \<and>
    eng u = (switch_down new e)\<lparr>e_accepting := b\<rparr>"
  proof (cases "e_state e = RUNNING")
    case True
    obtain u where u: "drive w t = drive w u" "\<not> exited u" "pcs u 0 = return_pc ?k"
      "eng u = return_eng ?k (core_released PAUSED ((eng t)\<lparr>e_accepting := True\<rparr>))"
      using drive_pause[of t NORMAL ?k w] t True fl settled_running[OF assms(1) True] by auto
    then show ?thesis
      using True t(4)
      by (intro exI[of _ u] exI[of _ True])
         (simp add: return_pc_def return_eng_def switch_down_def core_released_def)
  next
    case False
    let ?u = "pause_entry 0 NORMAL ?k t"
    have "drive w t = drive w ?u"
      by (rule drive_go) (use t fl in \<open>simp_all add: step_def lock_free_def section_defs\<close>)
    then show ?thesis
      using False st t
      by (intro exI[of _ ?u] exI[of _ False])
         (simp add: section_defs return_pc_def return_eng_def switch_down_def)
  qed
  then obtain u b where u: "drive w t = drive w u" "\<not> exited u"
    "pcs u 0 = ResumeEntry KSwitchResumed" "eng u = (switch_down new e)\<lparr>e_accepting := b\<rparr>"
    by blast
  have "e_state (eng u) = PAUSED" "e_lock (eng u) = None" "e_pending_pause (eng u) = None"
    using u(4) st fl by (auto simp: switch_down_def core_released_def)
  moreover have "(eng u)\<lparr>e_accepting := True\<rparr> = switch_down new e"
    using u(4) acc by (simp add: switch_down_def core_released_def)
  ultimately show ?thesis
    using drive_switch_resume[OF u(3,2), of w] t(1) u(1)
    by (simp add: run_call_def split: option.splits)
qed

lemma run_start_stopped:
  assumes "vllm_settled e" and "e_state e = STOPPED"
  shows "run_call w (CStart p) e =
     (case wd_create w 0 of
        Some r \<Rightarrow> (core_loaded r (e\<lparr>e_model := p\<rparr>), Inr ())
      | None \<Rightarrow> (e\<lparr>e_model := p\<rparr>, Inl (wd_error w)))"
proof -
  note fl = settled_flags[OF assms(1)]
  have acc: "e_accepting e" using assms(1) by (simp add: vllm_settled_def)
  let ?s = "goto 0 (entry (CStart p)) (sys_of e)"
  let ?t = "start_entry 0 p ?s"
  have 1: "drive w ?s = drive w ?t"
    by (rule drive_go)
       (use fl in \<open>simp_all add: step_def lock_free_def sys_of_def section_defs\<close>)
  show ?thesis
  proof (cases "wd_create w 0")
    case None
    let ?u = "goto 0 (StartFailed (wd_error w)) (set_cuda_visible ?t)"
    let ?v = "start_failed 0 (wd_error w) ?u"
    have "drive w ?t = drive w ?u"
      by (rule drive_go)
         (use None in \<open>simp_all add: step_def create_choice_def section_defs sys_of_def\<close>)
    also have "\<dots> = drive w ?v"
      by (rule drive_go)
         (use fl in \<open>simp_all add: step_def lock_free_def section_defs sys_of_def\<close>)
    also have "\<dots> = ?v" by (rule drive_end) (simp add: section_defs)
    finally show ?thesis
      using 1 None fl acc assms(2)
      by (simp add: run_call_def section_defs sys_of_def)
  next
    case (Some r)
    obtain h b a where r: "r = (h, b, a)" by (cases r) auto
    let ?u = "goto 0 StartLoaded (engine_created h b a ?t)"
    let ?v = "start_loaded 0 ?u"
    have "drive w ?t = drive w ?u"
      by (rule drive_go)
         (use Some r in \<open>simp_all add: step_def create_choice_def section_defs sys_of_def\<close>)
    also have "\<dots> = drive w ?v"
      by (rule drive_go)
         (use fl in \<open>simp_all add: step_def lock_free_def section_defs sys_of_def\<close>)
    also have "\<dots> = ?v"
      by (rule drive_end) (use fl in \<open>simp add: section_defs sys_of_def\<close>)
    finally show ?thesis
      using 1 Some r fl acc
      by (simp add: run_call_def section_defs sys_of_def core_loaded_def)
  qed
qed

lemma run_stop:
  assumes "vllm_settled e"
  shows "run_call w CStop e =
    (if e_engine e = None then e\<lparr>e_state := STOPPED\<rparr> else core_released STOPPED e, Inr ())"
proof -
  note fl = settled_flags[OF assms]
  let ?s = "goto 0 (entry CStop) (sys_of e)"
  let ?t = "stop_entry 0 ?s"
  have 1: "drive w ?s = drive w ?t"
    by (rule drive_go)
       (use fl in \<open>simp_all add: step_def lock_free_def sys_of_def section_defs\<close>)
  show ?thesis
  proof (cases "e_engine e")
    case None
    have "drive w ?t = ?t"
      by (rule drive_end) (use None in \<open>simp add: section_defs sys_of_def after_pc_def\<close>)
    with 1 None fl show ?thesis
      by (simp add: run_call_def section_defs sys_of_def after_pc_def after_eng_def)
  next
    case (Some h)
    obtain u where u: "drive w ?t = drive w u" "\<not> exited u"
      "eng u = after_eng AfterStop
         ((eng ?t)\<lparr>e_inflight := [], e_engine := None, e_child_pids := []\<rparr>)"
      "pcs u 0 = after_pc AfterStop (e_pending_resume (eng ?t))"
      using drive_destroy[of ?t "e_inflight e" AfterStop w] Some
      by (auto simp: section_defs sys_of_def)
    have ret: "pcs u 0 = Returned" using u(4) by (simp add: after_pc_def)
    then have "drive w u = u" by (intro drive_end) simp
    moreover have "eng u = core_released STOPPED e"
      using u(3) Some fl by (simp add: section_defs sys_of_def after_eng_def core_released_def)
    ultimately show ?thesis
      using 1 u(1,2) ret Some by (simp add: run_call_def)
  qed
qed

subsection \<open>The contract holds\<close>

lemma settled_core_released:
  "vllm_settled e \<Longrightarrow> st \<in> {PAUSED, STOPPED} \<Longrightarrow> vllm_settled (core_released st e)"
  by (auto simp: vllm_settled_def eng_ok_def core_released_def)

lemma settled_model: "vllm_settled e \<Longrightarrow> vllm_settled (e\<lparr>e_model := p\<rparr>)"
  by (auto simp: vllm_settled_def eng_ok_def)

lemma settled_stopped:
  "vllm_settled e \<Longrightarrow> e_engine e = None \<Longrightarrow> vllm_settled (e\<lparr>e_state := STOPPED\<rparr>)"
  by (auto simp: vllm_settled_def eng_ok_def)

lemma settled_core_loaded:
  "vllm_settled e \<Longrightarrow> vllm_settled (core_loaded r e)"
  by (cases r) (auto simp: vllm_settled_def eng_ok_def core_loaded_def)

lemma settled_switch_down:
  "vllm_settled e \<Longrightarrow> vllm_settled (switch_down new e)"
  by (simp add: switch_down_def settled_model settled_core_released)

lemma core_loaded_sel [simp]:
  "e_state (core_loaded r e) = RUNNING" "e_model (core_loaded r e) = e_model e"
  by (cases r; simp add: core_loaded_def)+

lemma core_released_sel [simp]:
  "e_state (core_released st e) = st" "e_model (core_released st e) = e_model e"
  "e_engine (core_released st e) = None"
  by (simp_all add: core_released_def)

lemma switch_down_model [simp]: "e_model (switch_down new e) = new"
  by (simp add: switch_down_def)

text \<open>The laws of a switch and of a resume, by the outcome of the reload.\<close>

lemma vllm_switch_laws:
  assumes ok: "vllm_settled e" and ret: "snd (run_call w (CSwitch new) e) = Inr ()"
  shows "vllm_settled (fst (run_call w (CSwitch new) e)) \<and>
    e_model (fst (run_call w (CSwitch new) e)) = new \<and>
    e_state (fst (run_call w (CSwitch new) e)) = (if e_state e = STOPPED then STOPPED else RUNNING)"
proof -
  consider "e_state e = STOPPED" | "e_model e = new" "e_state e = RUNNING"
    | "e_state e \<noteq> STOPPED" "\<not> (e_model e = new \<and> e_state e = RUNNING)" by blast
  then show ?thesis
  proof cases
    case 1
    with ok show ?thesis by (simp add: run_switch_stopped settled_model)
  next
    case 2
    with ok show ?thesis by (simp add: run_switch_current)
  next
    case 3
    with run_switch_up[OF ok 3, of w] ret obtain r where
      "run_call w (CSwitch new) e = (core_loaded r (switch_down new e), Inr ())"
      by (auto split: option.splits)
    with 3 ok show ?thesis by (simp add: settled_core_loaded settled_switch_down)
  qed
qed

lemma vllm_resume_laws:
  assumes ok: "vllm_settled e" and ret: "snd (run_call w CResume e) = Inr ()"
  shows "vllm_settled (fst (run_call w CResume e)) \<and>
    e_model (fst (run_call w CResume e)) = e_model e \<and>
    e_state (fst (run_call w CResume e)) = (if e_state e = PAUSED then RUNNING else e_state e)"
proof (cases "e_state e = PAUSED")
  case True
  with run_resume_paused[OF ok True, of w] ret obtain r where
    "run_call w CResume e = (core_loaded r e, Inr ())" by (auto split: option.splits)
  with True ok show ?thesis by (simp add: settled_core_loaded)
next
  case False
  with ok show ?thesis by (simp add: run_resume_other)
qed

lemma vllm_pause_laws:
  assumes ok: "vllm_settled e"
  shows "vllm_settled (fst (run_call w (CPause u) e)) \<and>
    snd (run_call w (CPause u) e) = Inr () \<and>
    e_state (fst (run_call w (CPause u) e)) =
      (if e_state e = RUNNING then PAUSED else e_state e)"
  using run_pause_running[OF ok, of w u] run_pause_other[OF ok, of w u] ok
    settled_core_released
  by (cases "e_state e = RUNNING") simp_all

lemma vllm_stop_laws:
  assumes ok: "vllm_settled e"
  shows "vllm_settled (fst (run_call w CStop e)) \<and>
    e_state (fst (run_call w CStop e)) = STOPPED"
  using run_stop[OF ok, of w] settled_core_released[OF ok, of STOPPED] settled_stopped[OF ok]
  by simp

lemma vllm_start_laws:
  assumes ok: "vllm_settled e" and st: "e_state e = STOPPED"
  shows "vllm_settled (fst (run_call w (CStart p) e))"
    and "snd (run_call w (CStart p) e) = Inr () \<Longrightarrow>
      e_state (fst (run_call w (CStart p) e)) = RUNNING"
  using run_start_stopped[OF ok st, of w p] st settled_model[OF ok, of p]
    settled_core_loaded[OF settled_model[OF ok, of p]]
  by (cases "wd_create w 0"; simp)+

lemma settled_start_paused:
  "vllm_settled e \<Longrightarrow> e_state e = STOPPED \<Longrightarrow> vllm_settled (start_paused_engine p e)"
  by (auto simp: start_paused_engine_def vllm_settled_def eng_ok_def)

lemma vllm_base_contract: "engine_contract (vllm_ops w) vllm_settled"
  by unfold_locales
     (simp_all add: vllm_ops_def status_def current_model_def vllm_pause_laws vllm_stop_laws
       vllm_start_laws vllm_resume_laws vllm_switch_laws settled_start_paused,
      simp_all add: vllm_settled_def is_available_def start_paused_engine_def)

lemma vllm_contract: "inference_engine (vllm_ops w) vllm_settled"
proof (intro inference_engine.intro vllm_base_contract inference_engine_axioms.intro)
  fix e p u
  assume ok: "vllm_settled e"
  show "fst (op_pause (vllm_ops w) u e) = e" if "op_state (vllm_ops w) e \<noteq> RUNNING"
    using that run_pause_other[OF ok] by (simp add: vllm_ops_def status_def)
  show "op_resume (vllm_ops w) e = (e, Inr ())" if "op_state (vllm_ops w) e \<noteq> PAUSED"
    using that run_resume_other[OF ok] by (simp add: vllm_ops_def status_def)
  show "op_switch (vllm_ops w) p e = (e, Inr ())"
    if "op_state (vllm_ops w) e = RUNNING" "op_model (vllm_ops w) e = p"
    using that run_switch_current[OF ok]
    by (simp add: vllm_ops_def status_def current_model_def)
  assume "snd (op_switch (vllm_ops w) p e) = Inr ()"
  then have ret: "snd (run_call w (CSwitch p) e) = Inr ()" by (simp add: vllm_ops_def)
  show "op_model (vllm_ops w) (fst (op_switch (vllm_ops w) p e)) = p"
    and "op_state (vllm_ops w) (fst (op_switch (vllm_ops w) p e)) =
      (if op_state (vllm_ops w) e = STOPPED then STOPPED else RUNNING)"
    using vllm_switch_laws[OF ok ret]
    by (simp_all add: vllm_ops_def current_model_def status_def)
qed

interpretation vllm: inference_engine "vllm_ops w" vllm_settled for w
  by (rule vllm_contract)

end
