(* ===== verification/Engine_Runs.thy ===== *)
theory Engine_Runs
  imports Engine_Solo
begin

text \<open>
  Concrete runs of \<open>VLLMEngine\<close>: a start, a served request and an immediate pause; a core
  that dies under a request; and two runs in which a request of the scheduler is lost.
\<close>

section \<open>A run from start to pause\<close>

definition vllm0 :: vllm where
  "vllm0 = vllm_init (85 / 100) 4096 1 (Some [0]) False"

text \<open>It starts, serves a request and is paused at once; then it is resumed.\<close>

definition pause_trace :: "label list" where
  "pause_trace =
     [LRun 0 Go, LRun 0 (CreateOk 7 (Some []) (Some [41])), LRun 0 Go,
      LCall 1 (CGenerate ''r1'' False), LRun 1 Go, LRun 1 Token,
      LCall 2 (CPause IMMEDIATE), LRun 2 Go, LRun 2 Go, LRun 2 Go, LRun 2 Go,
      LRun 2 (Alive [41]), LRun 2 Go]"

definition paused_sys :: sys where
  "paused_sys = the (execute pause_trace (boot_start ''m'' vllm0))"

lemmas trace_defs =
  pause_trace_def vllm0_def vllm_init_def boot_start_def sys_of_def goto_def upd_def step_def
  section_defs lock_free_def engine_created_def set_cuda_visible_def child_delta_def
  is_available_def destroy_shutdown_def destroy_kill_def destroy_release_def
  after_destroyed_def begin_destroy_def take_lock_def return_to_def gen_raised_def
  gen_finally_def Let_def

lemma pause_trace_runs:
  "execute pause_trace (boot_start ''m'' vllm0) = Some paused_sys \<and>
   allowed benign pause_trace (boot_start ''m'' vllm0) \<and>
   e_state (eng paused_sys) = PAUSED \<and> kills paused_sys = [41]"
  unfolding paused_sys_def by (simp add: trace_defs)

lemma paused_sys_reachable: "reachable benign (boot_start ''m'' vllm0) paused_sys"
  using pause_trace_runs execute_reachable by blast

lemma booted0: "booted (boot_start ''m'' vllm0)" "booted (boot_paused ''m'' vllm0)"
  unfolding vllm0_def by (rule booted.intros)+

text \<open>The pause half way: the core is shut down and its child not yet reaped.\<close>

definition reaping_sys :: sys where
  "reaping_sys = the (execute (take 11 pause_trace) (boot_start ''m'' vllm0))"

lemma reaping_sys_runs:
  "execute (take 11 pause_trace) (boot_start ''m'' vllm0) = Some reaping_sys \<and>
   allowed benign (take 11 pause_trace) (boot_start ''m'' vllm0) \<and>
   pcs reaping_sys 2 = DestroyWait [41] (AfterPause KRet) \<and> \<not> exited reaping_sys \<and>
   pcs reaping_sys 1 = Generating ''r1'' False \<and> e_active_requests (eng reaping_sys) = 1"
  unfolding reaping_sys_def by (simp add: trace_defs)

lemma reaping_sys_reachable: "reachable benign (boot_start ''m'' vllm0) reaping_sys"
  using reaping_sys_runs execute_reachable by blast

text \<open>A core that dies under a request.\<close>

definition dead_sys :: sys where
  "dead_sys = the (execute (take 5 pause_trace @ [LRun 1 (CoreDied 9)]) (boot_start ''m'' vllm0))"

lemma dead_sys_runs:
  "execute (take 5 pause_trace @ [LRun 1 (CoreDied 9)]) (boot_start ''m'' vllm0) = Some dead_sys \<and>
   allowed benign (take 5 pause_trace @ [LRun 1 (CoreDied 9)]) (boot_start ''m'' vllm0) \<and>
   e_state (eng dead_sys) = DEAD"
  unfolding dead_sys_def by (simp add: trace_defs)

lemma dead_sys_reachable: "reachable benign (boot_start ''m'' vllm0) dead_sys"
  using dead_sys_runs execute_reachable by blast

section \<open>Runs that lose a request of the scheduler\<close>

text \<open>
  Pause, then resume while the engine still loads: the resume finds LOADING and returns, the
  pending pause stays, and the engine ends paused although the last request was to resume.
\<close>

definition lost_resume_trace :: "label list" where
  "lost_resume_trace =
     [LCall 0 CResume, LRun 0 Go, LCall 1 (CPause NORMAL), LRun 1 Go, LCall 2 CResume, LRun 2 Go,
      LRun 0 (CreateOk 7 (Some []) (Some [])), LRun 0 Go, LRun 0 Go]"

lemma lost_resume:
  "\<exists>t. execute lost_resume_trace (boot_paused ''m'' vllm0) = Some t \<and>
     allowed benign lost_resume_trace (boot_paused ''m'' vllm0) \<and>
     (\<forall>i. finished (pcs t i)) \<and> pcs t 2 = Returned \<and> e_state (eng t) = PAUSED"
  by (simp add: lost_resume_trace_def boot_paused_def start_paused_engine_def trace_defs)

text \<open>
  A soft pause whose core dies during the drain: the pause returns without having paused, the
  recovery loads the GPU again, and the drain gate stays down, so the engine holds the GPU
  and serves nobody.
\<close>

definition stuck_gate_trace :: "label list" where
  "stuck_gate_trace =
     [LRun 0 Go, LRun 0 (CreateOk 7 (Some []) (Some [])), LRun 0 Go,
      LCall 1 (CGenerate ''r1'' False), LRun 1 Go,
      LCall 2 (CPause NORMAL), LRun 2 Go,
      LRun 1 (CoreDied 3), LRun 3 Go, LRun 3 Go,
      LRun 2 Go, LRun 2 Go,
      LRun 3 (CreateOk 8 (Some []) (Some [])), LRun 3 Go]"

lemma stuck_gate:
  "\<exists>t. execute stuck_gate_trace (boot_start ''m'' vllm0) = Some t \<and>
     allowed benign stuck_gate_trace (boot_start ''m'' vllm0) \<and>
     (\<forall>i. finished (pcs t i)) \<and> pcs t 2 = Returned \<and>
     e_state (eng t) = RUNNING \<and> e_engine (eng t) = Some 8 \<and> \<not> is_available (eng t)"
  by (simp add: stuck_gate_trace_def mark_dead_def trace_defs)

end
