(* ===== verification/Engine_Fleet.thy ===== *)
theory Engine_Fleet
  imports Engine_Runs
begin

text \<open>
  The engines of one process.  They share what belongs to the process: its child processes,
  its environment variables and the creation lock of the class.  A \<open>fleet\<close> is a list of
  engines, each a system of coroutines of its own, with the shared state; the invariant is
  that an engine knows and kills the subprocesses of its own core only.
\<close>

section \<open>What an engine asks of vLLM\<close>

text \<open>
  The arguments of \<open>AsyncEngineArgs\<close>.  \<open>model_max\<close> is \<open>max_position_embeddings\<close> of the model's
  configuration: an exception while it is read, absent, or a number, of which zero is falsy.
\<close>

record engine_args =
  ea_model :: string
  ea_gpu_memory_utilization :: rat
  ea_max_model_len :: int
  ea_tensor_parallel_size :: int
  ea_trust_remote_code :: bool
  ea_enforce_eager :: bool
  ea_enable_prefix_caching :: bool

definition effective_max_model_len :: "int \<Rightarrow> int option result \<Rightarrow> int" where
  "effective_max_model_len configured model_max =
     (case model_max of
        Inr (Some m) \<Rightarrow> if m \<noteq> 0 \<and> m < configured then m else configured
      | _ \<Rightarrow> configured)"

definition vllm_args :: "int option result \<Rightarrow> vllm \<Rightarrow> engine_args" where
  "vllm_args model_max e =
     \<lparr>ea_model = e_model e, ea_gpu_memory_utilization = e_gpu_memory_utilization e,
      ea_max_model_len = effective_max_model_len (e_max_model_len e) model_max,
      ea_tensor_parallel_size = e_tensor_parallel_size e, ea_trust_remote_code = True,
      ea_enforce_eager = e_enforce_eager e, ea_enable_prefix_caching = True\<rparr>"

lemma effective_max_model_len_bounds:
  assumes "0 < configured" and "\<And>m. model_max = Inr (Some m) \<Longrightarrow> 0 \<le> m"
  shows "0 < effective_max_model_len configured model_max"
    and "effective_max_model_len configured model_max \<le> configured"
    and "model_max = Inr (Some m) \<Longrightarrow> m \<noteq> 0 \<Longrightarrow> effective_max_model_len configured model_max \<le> m"
  using assms by (force simp: effective_max_model_len_def split: sum.split option.split)+

text \<open>Two engines with the same settings, whatever became of them since.\<close>

definition same_settings :: "vllm \<Rightarrow> vllm \<Rightarrow> bool" where
  "same_settings d e \<longleftrightarrow>
     e_gpu_memory_utilization d = e_gpu_memory_utilization e \<and>
     e_max_model_len d = e_max_model_len e \<and>
     e_tensor_parallel_size d = e_tensor_parallel_size e \<and>
     e_device_ids d = e_device_ids e \<and> e_enforce_eager d = e_enforce_eager e"

lemma same_settings_refl [simp]: "same_settings e e"
  by (simp add: same_settings_def)

lemma same_settings_trans [trans]: "same_settings d e \<Longrightarrow> same_settings e f \<Longrightarrow> same_settings d f"
  by (simp add: same_settings_def)

lemma vllm_args_settings:
  "same_settings d e \<Longrightarrow> vllm_args m d = (vllm_args m e)\<lparr>ea_model := e_model d\<rparr>"
  by (simp add: vllm_args_def same_settings_def)

lemma same_settings_helpers [simp]:
  "same_settings (return_eng k e) e" "same_settings (after_eng d e) e"
  by (simp_all add: same_settings_def return_eng_def after_eng_def
      split: kont.split after_destroy.split)

lemma cstep_settings: "cstep i c s t \<Longrightarrow> same_settings (eng t) (eng s)"
  by (induction rule: cstep.induct)
     (auto simp: section_defs same_settings_def return_eng_def after_eng_def gen_finally_def
       split: kont.split after_destroy.split option.split)

section \<open>The processes an engine knows of\<close>

fun waiting_pids :: "pc \<Rightarrow> int set" where
  "waiting_pids (DestroyWait pids d) = set pids"
| "waiting_pids _ = {}"

definition claimed :: "sys \<Rightarrow> int set" where
  "claimed s = set (e_child_pids (eng s)) \<union> set (kills s) \<union> (\<Union>i. waiting_pids (pcs s i))"

lemma waiting_pids_next [simp]:
  "waiting_pids (return_pc k) = {}" "waiting_pids (after_pc d b) = {}"
  "waiting_pids (entry cmd) = {}"
  by (simp_all add: return_pc_def after_pc_def split: kont.split after_destroy.split)
     (cases cmd; simp)

lemma claimed_mono:
  assumes "set (e_child_pids (eng t)) \<subseteq> claimed s \<union> X" and "set (kills t) \<subseteq> claimed s \<union> X"
    and "\<And>i. waiting_pids (pcs t i) \<subseteq> claimed s \<union> X"
  shows "claimed t \<subseteq> claimed s \<union> X"
  using assms unfolding claimed_def[of t] by blast

lemma claimedI:
  "p \<in> set (e_child_pids (eng s)) \<Longrightarrow> p \<in> claimed s" "p \<in> set (kills s) \<Longrightarrow> p \<in> claimed s"
  "p \<in> waiting_pids (pcs s i) \<Longrightarrow> p \<in> claimed s"
  "pcs s i = DestroyWait pids d \<Longrightarrow> p \<in> set pids \<Longrightarrow> p \<in> claimed s"
  by (auto simp: claimed_def intro!: exI[of _ i])

fun spawned :: "choice \<Rightarrow> int list" where
  "spawned (CreateOk h b a) = child_delta b a"
| "spawned _ = []"

lemma cstep_claimed: "cstep i c s t \<Longrightarrow> claimed t \<subseteq> claimed s \<union> set (spawned c)"
proof (intro claimed_mono)
  assume "cstep i c s t"
  then show "set (e_child_pids (eng t)) \<subseteq> claimed s \<union> set (spawned c)"
    by (induction rule: cstep.induct)
       (auto simp: section_defs gen_finally_def split: option.splits if_splits intro: claimedI)
next
  assume "cstep i c s t"
  then show "set (kills t) \<subseteq> claimed s \<union> set (spawned c)"
    by (induction rule: cstep.induct)
       (auto simp: section_defs gen_finally_def split: option.splits if_splits intro: claimedI)
next
  fix j
  assume "cstep i c s t"
  then show "waiting_pids (pcs t j) \<subseteq> claimed s \<union> set (spawned c)"
    by (induction rule: cstep.induct)
       (auto simp: section_defs gen_finally_def split: option.splits if_splits intro: claimedI)
qed

lemma fire_call_claimed: "fire (LCall i cmd) s = Some t \<Longrightarrow> claimed t \<subseteq> claimed s"
  by (intro claimed_mono[where X = "{}", simplified])
     (auto split: if_splits intro: claimedI)

section \<open>Engines of one process\<close>

text \<open>
  \<open>fl_children\<close> is what \<open>multiprocessing.active_children()\<close> returns; \<open>fl_owner\<close> records, for
  the statements only, which engine's construction spawned a process.
\<close>

record fleet =
  fl_engines :: "sys list"
  fl_children :: "int list"
  fl_environ :: "string option"     \<comment> \<open>\<open>CUDA_VISIBLE_DEVICES\<close> of the process\<close>
  fl_owner :: "int \<Rightarrow> nat option"

definition fleet_of :: "vllm list \<Rightarrow> int list \<Rightarrow> string option \<Rightarrow> fleet" where
  "fleet_of es children env =
     \<lparr>fl_engines = map sys_of es, fl_children = children, fl_environ = env,
      fl_owner = (\<lambda>_. None)\<rparr>"

text \<open>An engine with the variables of the process, and the process after the engine ran.\<close>

definition in_process :: "fleet \<Rightarrow> nat \<Rightarrow> sys" where
  "in_process f j = (fl_engines f ! j)\<lparr>cuda_visible := fl_environ f\<rparr>"

definition put_back :: "nat \<Rightarrow> fleet \<Rightarrow> sys \<Rightarrow> fleet" where
  "put_back j f t = f\<lparr>fl_engines := (fl_engines f)[j := t], fl_environ := cuda_visible t\<rparr>"

definition spawn :: "nat \<Rightarrow> int list \<Rightarrow> fleet \<Rightarrow> fleet" where
  "spawn j new f =
     f\<lparr>fl_children := fl_children f @ new,
       fl_owner := (\<lambda>p. if p \<in> set new then Some j else fl_owner f p)\<rparr>"

text \<open>
  The operating system gives a new process a pid that no core had before.  Under the creation
  lock nothing else spawns a child, so the scans differ by this engine's children; a
  construction that fails may leave some too.
\<close>

definition fresh :: "fleet \<Rightarrow> int list \<Rightarrow> bool" where
  "fresh f new \<longleftrightarrow> list_all (\<lambda>p. fl_owner f p = None \<and> p \<notin> set (fl_children f)) new"

fun spawns :: "fleet \<Rightarrow> choice \<Rightarrow> int list \<Rightarrow> bool" where
  "spawns f (CreateOk h b a) new \<longleftrightarrow> fresh f new \<and>
     (b = None \<or> b = Some (fl_children f)) \<and> (a = None \<or> a = Some (fl_children f @ new))"
| "spawns f (CreateErr x) new \<longleftrightarrow> fresh f new"
| "spawns f c new \<longleftrightarrow> new = []"

text \<open>A call of an engine's method, a coroutine that resumes, or a child that ends.\<close>

datatype fleet_label = FCall nat nat command | FRun nat nat choice "int list" | FExit int

definition fleet_up :: "fleet \<Rightarrow> bool" where
  "fleet_up f \<longleftrightarrow> list_all (\<lambda>s. \<not> exited s) (fl_engines f)"

fun fleet_fire :: "fleet_label \<Rightarrow> fleet \<Rightarrow> fleet option" where
  "fleet_fire (FCall j i cmd) f =
     (if fleet_up f \<and> j < length (fl_engines f)
      then map_option (put_back j f) (fire (LCall i cmd) (in_process f j)) else None)"
| "fleet_fire (FRun j i c new) f =
     (if fleet_up f \<and> j < length (fl_engines f) \<and> spawns f c new
      then map_option (\<lambda>t. spawn j new (put_back j f t)) (step i c (in_process f j)) else None)"
| "fleet_fire (FExit p) f = Some (f\<lparr>fl_children := removeAll p (fl_children f)\<rparr>)"

fun fleet_run :: "fleet_label list \<Rightarrow> fleet \<Rightarrow> fleet option" where
  "fleet_run [] f = Some f"
| "fleet_run (l # ls) f = (case fleet_fire l f of None \<Rightarrow> None | Some g \<Rightarrow> fleet_run ls g)"

text \<open>The scan before the construction worked.\<close>

fun scanned :: "fleet_label \<Rightarrow> bool" where
  "scanned (FRun j i (CreateOk h b a) new) \<longleftrightarrow> b \<noteq> None"
| "scanned l \<longleftrightarrow> True"

section \<open>Each engine keeps to its own\<close>

definition fleet_inv :: "vllm list \<Rightarrow> fleet \<Rightarrow> bool" where
  "fleet_inv es f \<longleftrightarrow> length (fl_engines f) = length es \<and>
     (\<forall>j < length es. claimed (fl_engines f ! j) \<subseteq> {p. fl_owner f p = Some j} \<and>
        same_settings (eng (fl_engines f ! j)) (es ! j))"

lemma in_process_sel [simp]:
  "claimed (in_process f j) = claimed (fl_engines f ! j)"
  "eng (in_process f j) = eng (fl_engines f ! j)"
  "cuda_visible (in_process f j) = fl_environ f"
  by (simp_all add: in_process_def claimed_def)

lemma put_back_sel [simp]:
  "fl_engines (put_back j f t) = (fl_engines f)[j := t]" "fl_owner (put_back j f t) = fl_owner f"
  "fl_children (put_back j f t) = fl_children f"
  by (simp_all add: put_back_def)

lemma spawn_sel [simp]:
  "fl_engines (spawn j new f) = fl_engines f"
  "fl_owner (spawn j new f) p = (if p \<in> set new then Some j else fl_owner f p)"
  by (simp_all add: spawn_def)

lemma spawned_new: "spawns f c new \<Longrightarrow> scanned (FRun j i c new) \<Longrightarrow> set (spawned c) \<subseteq> set new"
  by (cases c) (auto simp: child_delta_def)

lemma spawns_fresh: "spawns f c new \<Longrightarrow> p \<in> set new \<Longrightarrow> fl_owner f p = None"
  by (cases c) (auto simp: fresh_def list_all_iff)

text \<open>One engine moves and claims nothing but what it has just spawned.\<close>

lemma fleet_inv_move:
  assumes "fleet_inv es f" and "claimed t \<subseteq> claimed (fl_engines f ! j) \<union> set new"
    and "same_settings (eng t) (eng (fl_engines f ! j))"
    and "\<forall>p \<in> set new. fl_owner f p = None"
  shows "fleet_inv es (spawn j new (put_back j f t))"
proof -
  have "claimed (fl_engines (spawn j new (put_back j f t)) ! k) \<subseteq>
      {p. fl_owner (spawn j new (put_back j f t)) p = Some k} \<and>
      same_settings (eng (fl_engines (spawn j new (put_back j f t)) ! k)) (es ! k)"
    if k: "k < length es" for k
  proof (cases "k = j")
    case True
    have old: "claimed (fl_engines f ! j) \<subseteq> {p. fl_owner f p = Some j}"
      "same_settings (eng (fl_engines f ! j)) (es ! j)" "j < length (fl_engines f)"
      using assms(1) k True by (auto simp: fleet_inv_def)
    from same_settings_trans[OF assms(3) old(2)] old(1,3) assms(2) True show ?thesis by auto
  next
    case False
    have "claimed (fl_engines f ! k) \<subseteq> {p. fl_owner f p = Some k}"
      "same_settings (eng (fl_engines f ! k)) (es ! k)"
      using assms(1) k by (auto simp: fleet_inv_def)
    with assms(4) False show ?thesis by auto
  qed
  with assms(1) show ?thesis by (simp add: fleet_inv_def)
qed

lemma fleet_fire_inv:
  assumes "fleet_fire l f = Some g" and "scanned l" and "fleet_inv es f"
  shows "fleet_inv es g"
proof (cases l)
  case (FCall j i cmd)
  then obtain t where t: "fire (LCall i cmd) (in_process f j) = Some t" "g = put_back j f t"
    using assms(1) by (auto split: if_splits simp del: fire.simps)
  have "same_settings (eng t) (eng (fl_engines f ! j))" using t(1) by (auto split: if_splits)
  with fire_call_claimed[OF t(1)] assms(3) have "fleet_inv es (spawn j [] (put_back j f t))"
    by (intro fleet_inv_move) simp_all
  moreover have "spawn j [] (put_back j f t) = g" using t(2) by (simp add: spawn_def)
  ultimately show ?thesis by simp
next
  case (FRun j i c new)
  then obtain t where t: "step i c (in_process f j) = Some t" "g = spawn j new (put_back j f t)"
    and new: "spawns f c new"
    using assms(1) by (auto split: if_splits)
  from t(1) have c: "cstep i c (in_process f j) t" by (simp add: step_iff_cstep)
  show ?thesis
    unfolding t(2)
  proof (rule fleet_inv_move[OF assms(3)])
    show "claimed t \<subseteq> claimed (fl_engines f ! j) \<union> set new"
      using cstep_claimed[OF c] spawned_new[OF new] assms(2) FRun by auto
    show "same_settings (eng t) (eng (fl_engines f ! j))" using cstep_settings[OF c] by simp
    show "\<forall>p \<in> set new. fl_owner f p = None" using spawns_fresh[OF new] by blast
  qed
next
  case (FExit p)
  then have "fl_engines g = fl_engines f" "fl_owner g = fl_owner f" using assms(1) by auto
  with assms(3) show ?thesis by (simp add: fleet_inv_def)
qed

lemma fleet_run_inv:
  "fleet_run ls f = Some g \<Longrightarrow> list_all scanned ls \<Longrightarrow> fleet_inv es f \<Longrightarrow> fleet_inv es g"
  by (induction ls arbitrary: f) (auto split: option.splits intro: fleet_fire_inv)

lemma fleet_inv_init:
  "list_all (\<lambda>e. e_child_pids e = []) es \<Longrightarrow> fleet_inv es (fleet_of es children env)"
  by (simp add: fleet_inv_def fleet_of_def sys_of_def claimed_def list_all_length)

text \<open>The variable is set for each construction, whatever the others left in it.\<close>

lemma created_devices:
  "step i (CreateOk h b a) s = Some t \<Longrightarrow>
   cuda_visible t = (case e_device_ids (eng s) of None \<Rightarrow> cuda_visible s | Some ds \<Rightarrow> Some (cuda_devices ds))"
  unfolding step_iff_cstep
  by (cases rule: cstep.cases)
     (auto simp: engine_created_def set_cuda_visible_def split: option.split)

section \<open>Two engines\<close>

text \<open>
  The second engine's scan before its construction either works or raises; then one of the
  engines is paused while both cores linger.
\<close>

definition twin_engines :: "vllm list" where
  "twin_engines = [vllm0, vllm0\<lparr>e_device_ids := Some [1]\<rparr>]"

definition starts :: "nat \<Rightarrow> int list option \<Rightarrow> int list \<Rightarrow> int \<Rightarrow> fleet_label list" where
  "starts j before alive pid =
     [FCall j 0 (CStart ''m''), FRun j 0 Go [],
      FRun j 0 (CreateOk 7 before (Some (alive @ [pid]))) [pid], FRun j 0 Go []]"

definition pauses :: "nat \<Rightarrow> int list \<Rightarrow> fleet_label list" where
  "pauses j alive =
     [FCall j 1 (CPause IMMEDIATE), FRun j 1 Go [], FRun j 1 Go [], FRun j 1 Go [],
      FRun j 1 (Alive alive) [], FRun j 1 Go []]"

definition two_starts :: "int list option \<Rightarrow> nat \<Rightarrow> fleet_label list" where
  "two_starts second_scan j =
     starts 0 (Some []) [] 41 @ starts 1 second_scan [41] 42 @ pauses j [41, 42]"

lemmas fleet_run_defs =
  two_starts_def starts_def pauses_def twin_engines_def fleet_of_def fleet_up_def in_process_def
  put_back_def spawn_def fresh_def trace_defs

lemma two_starts_run:
  "\<exists>f. fleet_run (two_starts (Some [41]) 0) (fleet_of twin_engines [] None) = Some f \<and>
     kills (fl_engines f ! 0) = [41] \<and> e_child_pids (eng (fl_engines f ! 1)) = [42] \<and>
     fl_environ f = Some (cuda_devices [1])"
  by (simp add: fleet_run_defs)

text \<open>
  The \<open>except\<close> of the first scan takes it for empty: the second engine then claims the
  core of the first, and kills it when it is paused itself.
\<close>

lemma failed_scan_kills_sibling:
  "\<exists>f. fleet_run (two_starts None 1) (fleet_of twin_engines [] None) = Some f \<and>
     kills (fl_engines f ! 1) = [41, 42] \<and> fl_owner f 41 = Some 0 \<and>
     is_available (eng (fl_engines f ! 0))"
  by (simp add: fleet_run_defs)

end
