(* ===== verification/Generation.thy ===== *)
theory Generation
  imports Engine
begin

text \<open>
  What \<open>generate\<close> and \<open>generate_stream\<close> return, for both engines, and the two polling loops
  of \<open>VLLMEngine\<close>: the drain before a soft pause and the wait for free GPU memory.

  vLLM itself is not part of the code: its stream of outputs is an argument, a list of events
  that ends with the stream.  \<open>Engine\<close> models what the same calls do to the engine.
\<close>

section \<open>Requests\<close>

text \<open>
  The fields of a vLLM \<open>RequestOutput\<close> that are read, of its first completion where they
  belong to one; a list or reason is \<open>None\<close> where the attribute is missing or \<open>None\<close>.
\<close>

record request_output =
  ro_text :: string
  ro_prompt_token_ids :: "int list option"
  ro_token_ids :: "int list option"
  ro_finish_reason :: "string option"
  ro_num_cached_tokens :: cached_attr

text \<open>The sampling arguments with their defaults; a single stop string becomes a list.\<close>

datatype stop_arg = StopNone | StopStr string | StopList "string list"

record sampling =
  sp_max_tokens :: int
  sp_temperature :: rat
  sp_top_p :: rat
  sp_stop :: "string list option"

definition sampling_params ::
  "int option \<Rightarrow> rat option \<Rightarrow> rat option \<Rightarrow> stop_arg \<Rightarrow> sampling" where
  "sampling_params max_tokens temperature top_p stop =
     \<lparr>sp_max_tokens = (case max_tokens of None \<Rightarrow> 256 | Some n \<Rightarrow> n),
      sp_temperature = (case temperature of None \<Rightarrow> 7 / 10 | Some t \<Rightarrow> t),
      sp_top_p = (case top_p of None \<Rightarrow> 95 / 100 | Some p \<Rightarrow> p),
      sp_stop = (case stop of StopNone \<Rightarrow> None | StopStr s \<Rightarrow> Some [s] | StopList ss \<Rightarrow> Some ss)\<rparr>"

text \<open>
  What one turn of \<open>_iter_outputs\<close> brings: an output (with whether the engine is still
  RUNNING when it is handled), no output within the stall limit, or an exception of the
  stream.  The list's end is the end of the stream.
\<close>

datatype gen_event = Output bool request_output | Stalled | Failed py_exn

text \<open>The \<open>except\<close> clause: a dead core becomes a \<open>RuntimeError\<close>, the rest passes.\<close>

fun exn_type :: "py_exn \<Rightarrow> string" where
  "exn_type (EngineDead m) = ''EngineDeadError''"
| "exn_type (OtherExn ty m) = ty"
| "exn_type (RuntimeError m) = ''RuntimeError''"
| "exn_type (ValueError m) = ''ValueError''"
| "exn_type (TypeError m) = ''TypeError''"
| "exn_type (IndexError m) = ''IndexError''"
| "exn_type (KeyError m) = ''KeyError''"
| "exn_type (AttributeError m) = ''AttributeError''"
| "exn_type (OSError m) = ''OSError''"
| "exn_type (HTTPException c m) = ''HTTPException''"
| "exn_type (HTTPStatusError c) = ''HTTPStatusError''"
| "exn_type ConnectError = ''ConnectError''"
| "exn_type ProcessExit = ''SystemExit''"

definition translate_error :: "py_exn \<Rightarrow> py_exn" where
  "translate_error x = (if is_engine_dead_error (exn_type x) then core_died_error else x)"

section \<open>Reading the last output\<close>

definition count_tokens :: "int list option \<Rightarrow> int" where
  "count_tokens ids = (case ids of None \<Rightarrow> 0 | Some ts \<Rightarrow> int (length ts))"

definition openai_finish_reason :: "string option \<Rightarrow> string" where
  "openai_finish_reason reason =
     (case reason of
        None \<Rightarrow> ''stop''
      | Some r \<Rightarrow> if r \<noteq> [] \<and> str_contains ''length'' (lower r) then ''length'' else ''stop'')"

definition result_of :: "request_output \<Rightarrow> generate_result" where
  "result_of out =
     \<lparr>gr_text = ro_text out, gr_prompt_tokens = count_tokens (ro_prompt_token_ids out),
      gr_completion_tokens = count_tokens (ro_token_ids out),
      gr_finish_reason = openai_finish_reason (ro_finish_reason out),
      gr_cached_tokens =
        extract_cached_tokens (ro_num_cached_tokens out) (count_tokens (ro_prompt_token_ids out))\<rparr>"

definition final_chunk :: "request_output \<Rightarrow> stream_chunk" where
  "final_chunk out =
     \<lparr>sc_text_delta = '''', sc_finish_reason = Some (openai_finish_reason (ro_finish_reason out)),
      sc_prompt_tokens = count_tokens (ro_prompt_token_ids out),
      sc_completion_tokens = count_tokens (ro_token_ids out),
      sc_cached_tokens =
        extract_cached_tokens (ro_num_cached_tokens out) (count_tokens (ro_prompt_token_ids out))\<rparr>"

section \<open>\<open>generate\<close> and \<open>generate_stream\<close> of \<open>VLLMEngine\<close>\<close>

fun collect :: "request_output option \<Rightarrow> gen_event list \<Rightarrow> generate_result result" where
  "collect None [] = Inl no_output_error"
| "collect (Some out) [] = Inr (result_of out)"
| "collect prior (Output running out # evs) =
     (if running then collect (Some out) evs else Inl paused_error)"
| "collect prior (Stalled # evs) = Inl stall_error"
| "collect prior (Failed x # evs) = Inl (translate_error x)"

definition generate :: "bool \<Rightarrow> gen_event list \<Rightarrow> generate_result result" where
  "generate available evs = (if available then collect None evs else Inl unavailable_error)"

text \<open>The chunks yielded, and the exception that ends the stream if any.\<close>

definition chunk_of_delta :: "string \<Rightarrow> string \<Rightarrow> stream_chunk list" where
  "chunk_of_delta prev current =
     (let delta = drop (length prev) current in if delta \<noteq> [] then [delta_chunk delta] else [])"

fun collect_stream ::
  "string \<Rightarrow> request_output option \<Rightarrow> gen_event list \<Rightarrow> stream_chunk list \<times> py_exn option" where
  "collect_stream prev None [] = ([], None)"
| "collect_stream prev (Some out) [] = ([final_chunk out], None)"
| "collect_stream prev prior (Output running out # evs) =
     (if running
      then (let (cs, x) = collect_stream (ro_text out) (Some out) evs in
            (chunk_of_delta prev (ro_text out) @ cs, x))
      else ([], Some paused_error))"
| "collect_stream prev prior (Stalled # evs) = ([], Some stall_error)"
| "collect_stream prev prior (Failed x # evs) = ([], Some (translate_error x))"

definition generate_stream :: "bool \<Rightarrow> gen_event list \<Rightarrow> stream_chunk list \<times> py_exn option" where
  "generate_stream available evs =
     (if available then collect_stream '''' None evs else ([], Some unavailable_error))"

definition stream_text :: "stream_chunk list \<Rightarrow> string" where
  "stream_text cs = concat (map sc_text_delta cs)"

text \<open>vLLM's outputs are cumulative: each text extends the one before.\<close>

fun cumulative :: "string \<Rightarrow> gen_event list \<Rightarrow> bool" where
  "cumulative prev [] = True"
| "cumulative prev (Output running out # evs) =
     (prefix prev (ro_text out) \<and> cumulative (ro_text out) evs)"
| "cumulative prev (ev # evs) = cumulative prev evs"

subsection \<open>The stream and the whole result agree\<close>

lemma collect_stream_error:
  "prior \<noteq> None \<or> evs \<noteq> [] \<Longrightarrow>
   snd (collect_stream prev prior evs) =
     (case collect prior evs of Inl x \<Rightarrow> Some x | Inr r \<Rightarrow> None)"
  by (induction prev prior evs rule: collect_stream.induct) (auto split: prod.splits)

lemma chunk_of_delta_text:
  "prefix prev current \<Longrightarrow> prev @ stream_text (chunk_of_delta prev current) = current"
  by (auto simp: chunk_of_delta_def stream_text_def delta_chunk_def prefix_def Let_def)

lemma stream_text_append [simp]: "stream_text (cs @ ds) = stream_text cs @ stream_text ds"
  by (simp add: stream_text_def)

lemma chunk_of_delta_plain:
  "c \<in> set (chunk_of_delta prev current) \<Longrightarrow> sc_finish_reason c = None \<and> sc_text_delta c \<noteq> []"
  by (auto simp: chunk_of_delta_def delta_chunk_def Let_def split: if_splits)

text \<open>The chunk that closes the stream of a request with result \<open>r\<close>.\<close>

definition closing_chunk :: "generate_result \<Rightarrow> stream_chunk" where
  "closing_chunk r =
     \<lparr>sc_text_delta = '''', sc_finish_reason = Some (gr_finish_reason r),
      sc_prompt_tokens = gr_prompt_tokens r, sc_completion_tokens = gr_completion_tokens r,
      sc_cached_tokens = gr_cached_tokens r\<rparr>"

lemma final_chunk_result: "final_chunk out = closing_chunk (result_of out)"
  by (simp add: final_chunk_def closing_chunk_def result_of_def)

lemma collect_stream_result:
  assumes "collect prior evs = Inr r" and "cumulative prev evs"
    and "\<forall>out. prior = Some out \<longrightarrow> ro_text out = prev"
  shows "\<exists>cs. collect_stream prev prior evs = (cs @ [closing_chunk r], None) \<and>
    prev @ stream_text cs = gr_text r \<and>
    (\<forall>c \<in> set cs. sc_finish_reason c = None \<and> sc_text_delta c \<noteq> [])"
  using assms
proof (induction prev prior evs rule: collect_stream.induct)
  case (2 prev out)
  then show ?case
    by (auto simp: final_chunk_result result_of_def stream_text_def)
next
  case (3 prev prior running out evs)
  have "running" "collect (Some out) evs = Inr r"
    using "3.prems"(1) by (auto split: if_splits)
  moreover have "cumulative (ro_text out) evs" using "3.prems"(2) by simp
  ultimately obtain cs where
    cs: "collect_stream (ro_text out) (Some out) evs = (cs @ [closing_chunk r], None)"
      "ro_text out @ stream_text cs = gr_text r"
      "\<forall>c \<in> set cs. sc_finish_reason c = None \<and> sc_text_delta c \<noteq> []"
    using "3.IH" by (metis option.inject)
  let ?cs = "chunk_of_delta prev (ro_text out) @ cs"
  have "prev @ stream_text ?cs = gr_text r"
    using chunk_of_delta_text[of prev "ro_text out"] cs(2) "3.prems"(2)
    by (simp add: append_assoc[symmetric] del: append_assoc)
  moreover have "collect_stream prev prior (Output running out # evs) = (?cs @ [closing_chunk r], None)"
    using \<open>running\<close> cs(1) by simp
  ultimately show ?case
    using cs(3) chunk_of_delta_plain by (intro exI[of _ ?cs]) auto
qed simp_all

lemma generate_stream_result:
  assumes "generate available evs = Inr r" and "cumulative '''' evs"
  shows "\<exists>cs. generate_stream available evs = (cs @ [closing_chunk r], None) \<and>
    stream_text cs = gr_text r \<and>
    (\<forall>c \<in> set cs. sc_finish_reason c = None \<and> sc_text_delta c \<noteq> [])"
  using assms collect_stream_result[of None evs r "''''"]
  by (auto simp: generate_def generate_stream_def split: if_splits)

lemma generate_stream_error:
  "evs \<noteq> [] \<or> \<not> available \<Longrightarrow>
   snd (generate_stream available evs) =
     (case generate available evs of Inl x \<Rightarrow> Some x | Inr r \<Rightarrow> None)"
  by (auto simp: generate_def generate_stream_def collect_stream_error)

text \<open>Once the engine has left RUNNING no further text is delivered.\<close>

lemma collect_stream_stops:
  "collect_stream prev prior (Output False out # evs) = ([], Some paused_error)"
  by (cases prior) simp_all

section \<open>\<open>MockEngine\<close>\<close>

definition nat_split_words :: "string \<Rightarrow> nat" where
  "nat_split_words s = length (filter (\<lambda>w. w \<noteq> []) (split_on CHR '' '' (map (\<lambda>c. if is_blank c then CHR '' '' else c) s)))"

definition mock_text :: "int \<Rightarrow> string \<Rightarrow> int \<Rightarrow> string" where
  "mock_text gpu prompt max_tokens =
     ''[GPU-'' @ str_int gpu @ '' Mock response to: '' @ take 50 prompt @ ''...] '' @
     concat (replicate (nat (min max_tokens 20)) ''token '')"

definition mock_generate :: "bool \<Rightarrow> int \<Rightarrow> string \<Rightarrow> int option \<Rightarrow> generate_result result" where
  "mock_generate available gpu prompt max_tokens =
     (if \<not> available then Inl (RuntimeError ''Engine not available for inference'')
      else let n = (case max_tokens of None \<Rightarrow> 50 | Some k \<Rightarrow> k) in
        Inr \<lparr>gr_text = mock_text gpu prompt n, gr_prompt_tokens = int (nat_split_words prompt),
             gr_completion_tokens = min n 20, gr_finish_reason = ''stop'', gr_cached_tokens = 0\<rparr>)"

definition mock_words :: "string list" where
  "mock_words = [''Hello '', ''from '', ''mock '', ''engine. '']"

definition mock_generate_stream :: "bool \<Rightarrow> string \<Rightarrow> stream_chunk list \<times> py_exn option" where
  "mock_generate_stream available prompt =
     (if \<not> available then ([], Some (RuntimeError ''Engine not available for inference''))
      else (map delta_chunk mock_words @
        [\<lparr>sc_text_delta = '''', sc_finish_reason = Some ''stop'',
          sc_prompt_tokens = int (nat_split_words prompt),
          sc_completion_tokens = int (length mock_words), sc_cached_tokens = 0\<rparr>], None))"

end
