(* ===== verification/Requests.thy ===== *)
theory Requests
  imports Engine_Solo Generation
begin

text \<open>
  The two views of a request brought together.  \<open>Engine\<close> says what the coroutine of
  \<open>generate\<close> does to the engine, \<open>Generation\<close> what the call returns for the outputs vLLM
  sends it.  Here the coroutine is shown to end as the call returns, in every run, and a
  request served alone is given as a function of the engine.
\<close>

section \<open>The coroutine ends as the call returns\<close>

text \<open>
  What coroutine \<open>i\<close> of a run meets while it generates: each choice with which it is resumed,
  and whether the engine is RUNNING at that moment.
\<close>

fun saw :: "nat \<Rightarrow> label list \<Rightarrow> sys \<Rightarrow> (choice \<times> bool) list" where
  "saw i [] s = []"
| "saw i (l # ls) s =
     (case fire l s of
        None \<Rightarrow> []
      | Some t \<Rightarrow>
          (case l of
             LRun k c \<Rightarrow> if k = i \<and> in_flight (pcs s i) then [(c, e_state (eng s) = RUNNING)] else []
           | LCall k cmd \<Rightarrow> []) @ saw i ls t)"

text \<open>
  The same as outputs of vLLM: \<open>had\<close> says whether one has come already.  An exception of the
  stream is a dead core or any other, by the name of its type.
\<close>

fun events_seen :: "bool \<Rightarrow> gen_event list \<Rightarrow> (choice \<times> bool) list \<Rightarrow> bool" where
  "events_seen had [] cs \<longleftrightarrow> map fst cs = [StreamEnd had]"
| "events_seen had (Output running out # evs) cs \<longleftrightarrow>
     cs \<noteq> [] \<and> hd cs = (Token, running) \<and> (if running then events_seen True evs (tl cs) else tl cs = [])"
| "events_seen had (Stalled # evs) cs \<longleftrightarrow> map fst cs = [Stall]"
| "events_seen had (Failed x # evs) cs \<longleftrightarrow>
     (if is_engine_dead_error (exn_type x) then \<exists>j. map fst cs = [CoreDied j]
      else map fst cs = [ReqFailed x])"

lemma in_flight_iff: "in_flight p \<longleftrightarrow> (\<exists>rid str. p = Generating rid str)"
  by (cases p) simp_all

text \<open>No other coroutine moves one that generates, nor one that has ended.\<close>

lemma fire_other:
  assumes "fire l s = Some t" and "pcs s i \<noteq> Idle" and "\<And>c. l \<noteq> LRun i c"
  shows "pcs t i = pcs s i"
proof (cases l)
  case (LCall k cmd)
  with assms show ?thesis by (cases "k = i") (auto split: if_splits)
next
  case (LRun k c)
  with assms(1) have "cstep k c s t" by (simp add: step_iff_cstep)
  moreover have "k \<noteq> i" using assms(3) LRun by auto
  ultimately show ?thesis
    using assms(2)
    by (induction rule: cstep.induct) (auto simp: section_defs split: option.split)
qed

definition ended :: "pc \<Rightarrow> bool" where
  "ended p \<longleftrightarrow> p = Returned \<or> (\<exists>x. p = Raised x)"

lemma fire_ended:
  assumes "fire l s = Some t" and "ended (pcs s i)"
  shows "pcs t i = pcs s i"
proof (rule fire_other[OF assms(1)])
  show "pcs s i \<noteq> Idle" using assms(2) by (auto simp: ended_def)
  have "step i c s = None" for c using assms(2) by (auto simp: step_def ended_def)
  with assms(1) show "l \<noteq> LRun i c" for c by auto
qed

lemma ended_stays:
  "execute ls s = Some t \<Longrightarrow> ended (pcs s i) \<Longrightarrow> pcs t i = pcs s i"
proof (induction ls arbitrary: s)
  case (Cons l ls)
  then obtain u where u: "fire l s = Some u" "execute ls u = Some t" by (auto split: option.splits)
  from fire_ended[OF u(1) Cons.prems(2)] have "pcs u i = pcs s i" .
  with Cons u(2) show ?case by simp
qed simp

text \<open>How a request ends that has had \<open>prior\<close> as its last output and meets \<open>evs\<close> from then on.\<close>

definition ends_as :: "bool \<Rightarrow> request_output option \<Rightarrow> gen_event list \<Rightarrow> pc" where
  "ends_as streaming prior evs =
     (if streaming
      then (case snd (collect_stream '''' prior evs) of None \<Rightarrow> Returned | Some x \<Rightarrow> Raised x)
      else (case collect prior evs of Inr r \<Rightarrow> Returned | Inl x \<Rightarrow> Raised x))"

lemma ends_as_simps [simp]:
  "ends_as streaming prior [] =
     (if streaming \<or> prior \<noteq> None then Returned else Raised no_output_error)"
  "ends_as streaming prior (Output running out # evs) =
     (if running then ends_as streaming (Some out) evs else Raised paused_error)"
  "ends_as streaming prior (Stalled # evs) = Raised stall_error"
  "ends_as streaming prior (Failed x # evs) = Raised (translate_error x)"
  using collect_stream_error[of "Some out" evs "ro_text out"] collect_stream_error[of "Some out" evs "''''"]
  by (cases prior; auto simp: ends_as_def split: sum.splits prod.splits)+

text \<open>Resumed while it generates, it stays or ends.\<close>

lemma generating_step:
  assumes "step i c s = Some t" and "pcs s i = Generating rid streaming"
  shows "pcs t i =
    (case c of
       Token \<Rightarrow> if e_state (eng s) = RUNNING then Generating rid streaming else Raised paused_error
     | StreamEnd had \<Rightarrow> if had \<or> streaming then Returned else Raised no_output_error
     | Stall \<Rightarrow> Raised stall_error
     | CoreDied j \<Rightarrow> Raised core_died_error
     | ReqFailed x \<Rightarrow> Raised x
     | _ \<Rightarrow> undefined)"
  using assms by (cases c) (auto simp: step_def gen_token_def gen_core_died_def split: if_splits)

lemma request_ends:
  assumes "execute ls s = Some t" and "pcs s i = Generating rid streaming"
    and "events_seen (prior \<noteq> None) evs (saw i ls s)"
  shows "pcs t i = ends_as streaming prior evs"
  using assms
proof (induction ls arbitrary: s prior evs)
  case Nil
  then show ?case by (cases evs rule: list.exhaust; cases "hd evs") (auto split: if_splits)
next
  case (Cons l ls)
  obtain u where u: "fire l s = Some u" "execute ls u = Some t"
    using Cons.prems(1) by (auto split: option.splits)
  show ?case
  proof (cases "\<exists>c. l = LRun i c")
    case False
    have "pcs u i = Generating rid streaming"
      using fire_other[OF u(1)] Cons.prems(2) False by auto
    moreover have "saw i (l # ls) s = saw i ls u" using u(1) False by (auto split: label.split)
    ultimately show ?thesis using Cons.IH u(2) Cons.prems(3) by simp
  next
    case True
    then obtain c where l: "l = LRun i c" by blast
    have st: "step i c s = Some u" using u(1) l by simp
    have seen: "events_seen (prior \<noteq> None) evs ((c, e_state (eng s) = RUNNING) # saw i ls u)"
      using Cons.prems(2,3) st l by simp
    note next_pc = generating_step[OF st Cons.prems(2)]
    show ?thesis
    proof (cases "c = Token \<and> e_state (eng s) = RUNNING")
      case True
      then obtain out evs' where "evs = Output True out # evs'" "events_seen True evs' (saw i ls u)"
        using seen by (cases evs rule: list.exhaust; cases "hd evs") (auto split: if_splits)
      moreover have "pcs u i = Generating rid streaming" using next_pc True by simp
      ultimately show ?thesis using Cons.IH[OF u(2), of "Some out" evs'] by simp
    next
      case False
      have "pcs u i = ends_as streaming prior evs"
        using seen next_pc False
        by (cases evs rule: list.exhaust; cases "hd evs")
           (auto simp: translate_error_def split: if_splits)
      moreover have "ended (pcs u i)"
        using next_pc False seen
        by (cases evs rule: list.exhaust; cases "hd evs") (auto simp: ended_def split: if_splits)
      ultimately show ?thesis using ended_stays[OF u(2)] by simp
    qed
  qed
qed

section \<open>A request served alone\<close>

text \<open>
  A request that nothing overlaps: task 0 generates, and the engine is RUNNING whenever an
  output comes.  If the core dies, \<open>_recover_dead_engine\<close>, a task of its own in the code, runs
  to its end before the next call; one that gives up exits the process, which is the result
  then.
\<close>

definition while_running :: "gen_event list \<Rightarrow> gen_event list" where
  "while_running = map (\<lambda>ev. case ev of Output running out \<Rightarrow> Output True out | _ \<Rightarrow> ev)"

fun request_labels :: "bool \<Rightarrow> gen_event list \<Rightarrow> label list" where
  "request_labels had [] = [LRun 0 (StreamEnd had)]"
| "request_labels had (Output running out # evs) = LRun 0 Token # request_labels True evs"
| "request_labels had (Stalled # evs) = [LRun 0 Stall]"
| "request_labels had (Failed x # evs) =
     [LRun 0 (if is_engine_dead_error (exn_type x) then CoreDied 1 else ReqFailed x)]"

definition run_recovery :: "world \<Rightarrow> vllm meth" where
  "run_recovery w e =
     (let s = drive w (goto 0 RecoverEntry (sys_of e)) in
      (eng s, if exited s then Inl ProcessExit else Inr ()))"

definition serve_request :: "world \<Rightarrow> string \<Rightarrow> bool \<Rightarrow> gen_event list \<Rightarrow> vllm meth" where
  "serve_request w rid streaming evs e =
     (if \<not> is_available e then (e, Inr ())
      else case execute ([LCall 0 (CGenerate rid streaming), LRun 0 Go] @ request_labels False evs)
               (sys_of e) of
        None \<Rightarrow> (e, Inr ())
      | Some s \<Rightarrow> if pcs s 1 = RecoverEntry then run_recovery w (eng s) else (eng s, Inr ()))"

definition vllm_generate ::
  "world \<Rightarrow> string \<Rightarrow> gen_event list \<Rightarrow> vllm \<Rightarrow> vllm \<times> generate_result result" where
  "vllm_generate w rid evs e =
     (case serve_request w rid False evs e of
        (e', Inl x) \<Rightarrow> (e', Inl x)
      | (e', Inr _) \<Rightarrow> (e', generate (is_available e) (while_running evs)))"

definition vllm_generate_stream ::
  "world \<Rightarrow> string \<Rightarrow> gen_event list \<Rightarrow> vllm \<Rightarrow> vllm \<times> stream_chunk list \<times> py_exn option" where
  "vllm_generate_stream w rid evs e =
     (case serve_request w rid True evs e of
        (e', Inl x) \<Rightarrow> (e', [], Some x)
      | (e', Inr _) \<Rightarrow> (e', generate_stream (is_available e) (while_running evs)))"

subsection \<open>What it does to the engine\<close>

fun core_dies :: "gen_event list \<Rightarrow> bool" where
  "core_dies [] = False"
| "core_dies (Output running out # evs) = core_dies evs"
| "core_dies (Stalled # evs) = False"
| "core_dies (Failed x # evs) = is_engine_dead_error (exn_type x)"

definition request_done :: "string \<Rightarrow> bool \<Rightarrow> vllm \<Rightarrow> vllm" where
  "request_done rid dead e =
     (let e' = e\<lparr>e_active_requests := e_active_requests e - 1,
                 e_inflight := removeAll rid (e_inflight e)\<rparr> in
      if dead then e'\<lparr>e_state := DEAD, e_recovering := True\<rparr> else e')"

lemma request_labels_run:
  assumes "pcs s 0 = Generating rid streaming" and "pcs s 1 = Idle" and "\<not> exited s"
    and "e_state (eng s) = RUNNING" and "\<not> e_recovering (eng s)"
  shows "\<exists>t. execute (request_labels had evs) s = Some t \<and> \<not> exited t \<and>
    eng t = request_done rid (core_dies evs) (eng s) \<and>
    pcs t 1 = (if core_dies evs then RecoverEntry else Idle)"
  using assms
proof (induction had evs arbitrary: s rule: request_labels.induct)
  case (2 had running out evs)
  have "step 0 Token s = Some s" using "2.prems" by (simp add: step_def gen_token_def)
  with "2.IH"[OF "2.prems"] show ?case by simp
qed (auto simp: step_def request_done_def gen_core_died_def Let_def)

text \<open>The recovery replaces the core, if one of three attempts succeeds.\<close>

lemma run_recovery_cases:
  assumes "e_state e = DEAD" and "e_engine e \<noteq> None" and "e_lock e = None"
    and "e_pending_pause e = None"
  shows "case reload_attempt w of
      Some r \<Rightarrow> run_recovery w e = (core_loaded r (e\<lparr>e_inflight := [], e_recovering := False\<rparr>), Inr ())
    | None \<Rightarrow> snd (run_recovery w e) = Inl ProcessExit"
proof -
  let ?s = "goto 0 RecoverEntry (sys_of e)"
  let ?t = "recover_entry 0 ?s"
  have "drive w ?s = drive w ?t"
    by (rule drive_go) (use assms in \<open>simp_all add: step_def lock_free_def section_defs sys_of_def\<close>)
  moreover obtain u where u: "drive w ?t = drive w u" "\<not> exited u"
    "eng u = after_eng AfterRecover ((eng ?t)\<lparr>e_inflight := [], e_engine := None, e_child_pids := []\<rparr>)"
    "pcs u 0 = after_pc AfterRecover (e_pending_resume (eng ?t))"
    using drive_destroy[of ?t "e_inflight e" AfterRecover w] assms
    by (auto simp: section_defs sys_of_def)
  moreover have "e_lock (eng u) = None" "e_pending_pause (eng u) = None" "pcs u 0 = Reload 1 KRecover"
    using u(3,4) assms by (simp_all add: after_pc_def section_defs sys_of_def)
  ultimately have "case reload_attempt w of
      Some r \<Rightarrow> \<not> exited (drive w ?s) \<and> eng (drive w ?s) = return_eng KRecover (core_loaded r (eng u))
    | None \<Rightarrow> exited (drive w ?s)"
    using drive_reload[of u KRecover w] by (auto simp: final_kont_def split: option.splits)
  moreover have "return_eng KRecover (core_loaded r (eng u)) =
      core_loaded r (e\<lparr>e_inflight := [], e_recovering := False\<rparr>)" for r
    using assms
    by (cases r) (simp add: u(3) section_defs sys_of_def after_eng_def return_eng_def core_loaded_def)
  ultimately show ?thesis by (simp add: run_recovery_def split: option.splits)
qed

text \<open>
  Served alone on a settled engine, a request leaves it settled and as available as before,
  with its model: as it was but for the request's id, or with a new core.
\<close>

lemma serve_request_cases:
  assumes "vllm_settled e" and "is_available e"
  shows "serve_request w rid streaming evs e =
    (if core_dies evs then run_recovery w (request_done rid True (e\<lparr>e_active_requests := e_active_requests e + 1,
        e_inflight := List.insert rid (e_inflight e)\<rparr>))
     else (e\<lparr>e_inflight := removeAll rid (e_inflight e)\<rparr>, Inr ()))"
proof -
  let ?e = "e\<lparr>e_active_requests := e_active_requests e + 1,
    e_inflight := List.insert rid (e_inflight e)\<rparr>"
  let ?s = "goto 0 (Generating rid streaming) (upd (\<lambda>e. ?e) (goto 0 (GenEntry rid streaming) (sys_of e)))"
  have st: "e_state e = RUNNING" "\<not> e_recovering e"
    using assms by (auto simp: is_available_def vllm_settled_def)
  obtain t where t: "execute (request_labels False evs) ?s = Some t"
    "eng t = request_done rid (core_dies evs) ?e" "pcs t 1 = (if core_dies evs then RecoverEntry else Idle)"
    using request_labels_run[of ?s rid streaming False evs] st by (auto simp: sys_of_def)
  have run: "execute ([LCall 0 (CGenerate rid streaming), LRun 0 Go] @ request_labels False evs)
      (sys_of e) = Some t"
    using assms(2) t(1) by (simp add: sys_of_def step_def gen_entry_def goto_def upd_def)
  have "request_done rid False ?e = e\<lparr>e_inflight := removeAll rid (e_inflight e)\<rparr>"
    by (simp add: request_done_def Let_def List.insert_def)
  with assms(2) t(2,3) show ?thesis unfolding serve_request_def run by simp
qed

text \<open>After a core death, the engine is the served one without its core until it reloads.\<close>

lemma recovered_engine:
  assumes "vllm_settled e" and "is_available e"
    and d: "d = request_done rid True (e\<lparr>e_active_requests := e_active_requests e + 1,
      e_inflight := List.insert rid (e_inflight e)\<rparr>)"
  shows "e_state d = DEAD" and "e_engine d \<noteq> None" and "e_lock d = None"
    and "e_pending_pause d = None"
    and "vllm_settled (core_loaded r (d\<lparr>e_inflight := [], e_recovering := False\<rparr>))"
    and "e_state (core_loaded r (d\<lparr>e_inflight := [], e_recovering := False\<rparr>)) = e_state e"
    and "e_model (core_loaded r (d\<lparr>e_inflight := [], e_recovering := False\<rparr>)) = e_model e"
  using assms(1,2) settled_flags[OF assms(1)] settled_running[OF assms(1)] unfolding d
  by (auto simp: request_done_def is_available_def Let_def core_loaded_def vllm_settled_def
      eng_ok_def split: prod.splits)

lemma serve_request_laws:
  assumes "vllm_settled e"
  shows "snd (serve_request w rid streaming evs e) \<in> {Inr (), Inl ProcessExit}"
    and "snd (serve_request w rid streaming evs e) = Inr () \<Longrightarrow>
      vllm_settled (fst (serve_request w rid streaming evs e)) \<and>
      e_state (fst (serve_request w rid streaming evs e)) = e_state e \<and>
      e_model (fst (serve_request w rid streaming evs e)) = e_model e"
proof -
  have "snd (serve_request w rid streaming evs e) \<in> {Inr (), Inl ProcessExit} \<and>
    (snd (serve_request w rid streaming evs e) = Inr () \<longrightarrow>
      vllm_settled (fst (serve_request w rid streaming evs e)) \<and>
      e_state (fst (serve_request w rid streaming evs e)) = e_state e \<and>
      e_model (fst (serve_request w rid streaming evs e)) = e_model e)"
  proof (cases "is_available e")
    case False
    with assms show ?thesis by (simp add: serve_request_def)
  next
    case up: True
    show ?thesis
    proof (cases "core_dies evs")
      case False
      have "vllm_settled (e\<lparr>e_inflight := removeAll rid (e_inflight e)\<rparr>)"
        using assms by (auto simp add: vllm_settled_def eng_ok_def)
      with False show ?thesis by (simp add: serve_request_cases[OF assms up])
    next
      case True
      note rec = recovered_engine[OF assms up refl, where rid = rid]
      show ?thesis
        unfolding serve_request_cases[OF assms up]
        using run_recovery_cases[OF rec(1-4), of w] rec(5-7) True
        by (cases "reload_attempt w") (simp_all only: option.simps if_True fst_conv snd_conv, auto)
    qed
  qed
  then show "snd (serve_request w rid streaming evs e) \<in> {Inr (), Inl ProcessExit}"
    "snd (serve_request w rid streaming evs e) = Inr () \<Longrightarrow>
      vllm_settled (fst (serve_request w rid streaming evs e)) \<and>
      e_state (fst (serve_request w rid streaming evs e)) = e_state e \<and>
      e_model (fst (serve_request w rid streaming evs e)) = e_model e"
    by blast+
qed

end
