(* ===== verification/Polling.thy ===== *)
theory Polling
  imports Engine
begin

text \<open>
  The two polling loops of \<open>VLLMEngine\<close>: \<open>_drain_requests\<close> before a teardown and
  \<open>_wait_for_vram_release\<close> before a load, with the query of \<open>nvidia-smi\<close>.

  A loop reads the clock and the world once per turn; turn \<open>k\<close> sees \<open>obs k\<close>.  The loops are
  partial functions, so that they end is a theorem: it needs only that the clock moves on by
  the sleep of each turn.
\<close>

section \<open>Draining\<close>

datatype drain_end = Drained | DrainTimeout

text \<open>\<open>obs k\<close>: the active requests at the loop's test and the clock read after it.\<close>

partial_function (option) drain_loop ::
  "(nat \<Rightarrow> int \<times> rat) \<Rightarrow> rat \<Rightarrow> nat \<Rightarrow> (nat \<times> drain_end) option" where
  "drain_loop obs deadline k =
     (if fst (obs k) > 0
      then if snd (obs k) > deadline then Some (k, DrainTimeout)
           else drain_loop obs deadline (k + 1)
      else Some (k, Drained))"

definition drain_requests :: "int \<Rightarrow> rat \<Rightarrow> rat \<Rightarrow> (nat \<Rightarrow> int \<times> rat) \<Rightarrow> (nat \<times> drain_end) option" where
  "drain_requests active now timeout obs =
     (if active = 0 then Some (0, Drained) else drain_loop obs (now + timeout) 0)"

lemma drain_loop_ends:
  assumes "\<forall>j \<ge> k. snd (obs j) + 1 / 10 \<le> snd (obs (j + 1))" and "snd (obs k) + of_nat n / 10 > deadline"
  shows "\<exists>r. drain_loop obs deadline k = Some r \<and> fst r \<le> k + n"
  using assms
proof (induction n arbitrary: k)
  case 0
  then show ?case by (subst drain_loop.simps) auto
next
  case (Suc n)
  show ?case
  proof (cases "fst (obs k) > 0 \<and> \<not> snd (obs k) > deadline")
    case True
    have "snd (obs (k + 1)) + of_nat n / 10 > deadline"
      using Suc.prems by (auto simp: add_divide_distrib dest: spec[of _ k])
    with Suc.IH[of "k + 1"] Suc.prems(1) True show ?thesis
      by (subst drain_loop.simps) fastforce
  next
    case False
    then show ?thesis by (subst drain_loop.simps) auto
  qed
qed

definition drain_sound :: "(nat \<Rightarrow> int \<times> rat) \<Rightarrow> rat \<Rightarrow> nat \<Rightarrow> drain_end \<Rightarrow> bool" where
  "drain_sound obs deadline n r =
     (case r of Drained \<Rightarrow> fst (obs n) \<le> 0
      | DrainTimeout \<Rightarrow> fst (obs n) > 0 \<and> snd (obs n) > deadline)"

lemma drain_loop_sound:
  assumes "drain_loop obs deadline k = Some nr"
  shows "drain_sound obs deadline (fst nr) (snd nr)"
proof (rule drain_loop.raw_induct
    [of "\<lambda>obs deadline k nr. drain_sound obs deadline (fst nr) (snd nr)", OF _ assms], goal_cases)
  case (1 drain_loop obs deadline k nr)
  then show ?case by (auto simp: drain_sound_def split: if_splits)
qed

section \<open>The free memory of a GPU\<close>

text \<open>
  The reply of \<open>nvidia-smi\<close>: it could not be run, or its exit code and output.  \<open>float()\<close>
  is a parameter, \<open>None\<close> where it raises; every exception of the body gives \<open>None\<close>.
\<close>

definition query_gpu_free_ratio ::
  "(string \<Rightarrow> rat option) \<Rightarrow> (int \<times> string) option \<Rightarrow> rat option" where
  "query_gpu_free_ratio parse reply =
     (case reply of
        None \<Rightarrow> None
      | Some (code, out) \<Rightarrow>
          if code \<noteq> 0 then None
          else let parts = split_on CHR '','' (strip out) in
            if length parts < 2 then None
            else case (parse (strip (parts ! 0)), parse (strip (parts ! 1))) of
                   (Some fr, Some tot) \<Rightarrow> if tot > 0 then Some (fr / tot) else None
                 | _ \<Rightarrow> None)"

section \<open>Waiting for it\<close>

datatype vram_end = Released rat | Unverified | VramTimeout rat

text \<open>\<open>obs k\<close>: the clock at the test of turn \<open>k\<close> and the query's answer.\<close>

partial_function (option) vram_loop ::
  "(nat \<Rightarrow> rat \<times> rat option) \<Rightarrow> rat \<Rightarrow> rat \<Rightarrow> bool \<Rightarrow> nat \<Rightarrow> nat \<Rightarrow> (nat \<times> vram_end) option" where
  "vram_loop obs deadline needed worked failures k =
     (if fst (obs k) < deadline
      then (case snd (obs k) of
              None \<Rightarrow>
                if \<not> worked \<and> failures + 1 \<ge> 3 then Some (k, Unverified)
                else vram_loop obs deadline needed worked (failures + 1) (k + 1)
            | Some ratio \<Rightarrow>
                if ratio \<ge> needed then Some (k, Released ratio)
                else vram_loop obs deadline needed True 0 (k + 1))
      else Some (k, VramTimeout (case snd (obs k) of None \<Rightarrow> 0 | Some r \<Rightarrow> r)))"

definition wait_gpu_id :: "int list option \<Rightarrow> int" where
  "wait_gpu_id devs = (case devs of Some (d # ds) \<Rightarrow> d | _ \<Rightarrow> 0)"

definition wait_for_vram_release ::
  "vllm \<Rightarrow> rat \<Rightarrow> rat \<Rightarrow> (int \<Rightarrow> nat \<Rightarrow> rat \<times> rat option) \<Rightarrow> (nat \<times> vram_end) option" where
  "wait_for_vram_release e now timeout obs =
     vram_loop (obs (wait_gpu_id (e_device_ids e))) (now + timeout)
       (e_gpu_memory_utilization e) False 0 0"

lemma vram_loop_ends:
  assumes "\<forall>j \<ge> k. fst (obs j) + 1 / 2 \<le> fst (obs (j + 1))" and "fst (obs k) + of_nat n / 2 \<ge> deadline"
  shows "\<exists>r. vram_loop obs deadline needed worked failures k = Some r \<and> fst r \<le> k + n"
  using assms
proof (induction n arbitrary: k worked failures)
  case 0
  then show ?case by (subst vram_loop.simps) auto
next
  case (Suc n)
  have "fst (obs (k + 1)) + of_nat n / 2 \<ge> deadline"
    using Suc.prems by (auto simp: add_divide_distrib dest: spec[of _ k])
  with Suc.IH[of "k + 1"] Suc.prems(1)
  have next_turn: "\<exists>r. vram_loop obs deadline needed w f (k + 1) = Some r \<and> fst r \<le> k + Suc n"
    for w f by fastforce
  show ?case
    by (subst vram_loop.simps) (use next_turn in \<open>auto split: option.split\<close>)
qed

text \<open>
  What the loop may conclude.  It says released only on a reading that is high enough, and
  gives up before the time limit only after three failures in a row with no reading at all.
\<close>

definition vram_sound ::
  "(nat \<Rightarrow> rat \<times> rat option) \<Rightarrow> rat \<Rightarrow> rat \<Rightarrow> nat \<Rightarrow> vram_end \<Rightarrow> bool" where
  "vram_sound obs deadline needed n r =
     (case r of
        Released ratio \<Rightarrow> snd (obs n) = Some ratio \<and> needed \<le> ratio
      | Unverified \<Rightarrow> \<forall>j \<le> n. snd (obs j) = None
      | VramTimeout ratio \<Rightarrow> deadline \<le> fst (obs n))"

lemma vram_loop_sound:
  assumes "vram_loop obs deadline needed worked failures k = Some nr"
  shows "(\<not> worked \<longrightarrow> failures = k \<and> (\<forall>j < k. snd (obs j) = None)) \<longrightarrow>
    vram_sound obs deadline needed (fst nr) (snd nr)"
proof (rule vram_loop.raw_induct
    [of "\<lambda>obs deadline needed worked failures k nr.
       (\<not> worked \<longrightarrow> failures = k \<and> (\<forall>j < k. snd (obs j) = None)) \<longrightarrow>
       vram_sound obs deadline needed (fst nr) (snd nr)", OF _ assms], goal_cases)
  case (1 vram_loop obs deadline needed worked failures k nr)
  show ?case
  proof (cases "fst (obs k) < deadline")
    case False
    with 1 show ?thesis by (auto simp: vram_sound_def)
  next
    case True
    show ?thesis
    proof (cases "snd (obs k)")
      case None
      with True 1 show ?thesis
        by (auto simp: vram_sound_def less_Suc_eq le_less split: if_splits)
    next
      case (Some ratio)
      with True 1 show ?thesis by (auto simp: vram_sound_def split: if_splits)
    qed
  qed
qed

end
