(* ===== verification/Engine_Props.thy ===== *)
theory Engine_Props
  imports Engine_Fleet Requests Polling
begin

text \<open>
  The properties of the engine: its lifecycle under every interleaving of calls, what each call
  does alone, what a generation returns, and that its polling loops end.
\<close>

section \<open>The engine\<close>







text \<open>
  C4. Under any environment at all: the lock is held exactly by the coroutine that tears the
  core down, at most one does so, and \<open>_active_requests\<close> counts the requests in flight.
\<close>

theorem lock_and_request_count:
  assumes "reachable env (sys_of e) s" and "e_lock e = None" and "e_active_requests e = 0"
  shows "(\<forall>i. holds_lock (pcs s i) \<longleftrightarrow> e_lock (eng s) = Some i) \<and>
    e_active_requests (eng s) = int (card {i. in_flight (pcs s i)})"
proof -
  have "lock_inv (sys_of e)" "count_inv (sys_of e)"
    using assms(2,3) by (simp_all add: lock_inv_def count_inv_def sys_of_def)
  with reachable_basic_inv[OF assms(1)] show ?thesis
    by (simp add: lock_inv_def count_inv_def)
qed

theorem lock_and_request_count_witness:
  "\<exists>s. execute (LCall 0 (CStart ''m'') # take 11 pause_trace) (sys_of vllm0) = Some s \<and>
     e_lock (eng s) = Some 2 \<and> holds_lock (pcs s 2) \<and> e_active_requests (eng s) = 1 \<and>
     card {i. in_flight (pcs s i)} = 1"
proof -
  have boot: "execute (LCall 0 (CStart ''m'') # take 11 pause_trace) (sys_of vllm0) =
      Some reaping_sys"
    using reaping_sys_runs by (simp add: boot_start_def sys_of_def)
  have "allowed (\<lambda>_ _. True) ls s" if "execute ls s = Some t" for ls s t
    using that by (induction ls arbitrary: s) (auto split: option.splits)
  with boot have "reachable (\<lambda>_ _. True) (sys_of vllm0) reaping_sys"
    using execute_reachable by blast
  from lock_and_request_count[OF this]
  have "holds_lock (pcs reaping_sys 2) \<longleftrightarrow> e_lock (eng reaping_sys) = Some 2"
    "e_active_requests (eng reaping_sys) = int (card {i. in_flight (pcs reaping_sys i)})"
    by (simp_all add: vllm0_def vllm_init_def)
  with boot reaping_sys_runs show ?thesis by simp
qed

text \<open>
  C5. No deadlock: while a coroutine has not ended, it can run, or the holder of the transition
  lock can.
\<close>

theorem engine_never_deadlocks:
  assumes "booted s0" and "reachable env s0 s" and "\<not> exited s" and "\<not> finished (pcs s i)"
  shows "\<exists>j c t. step j c s = Some t \<and> (j = i \<or> e_lock (eng s) = Some j)"
  using assms reachable_basic_inv booted_basic_inv no_deadlock by blast

theorem engine_never_deadlocks_witness:
  "\<exists>j c t. step j c reaping_sys = Some t \<and> (j = 2 \<or> e_lock (eng reaping_sys) = Some j)"
  using engine_never_deadlocks[OF booted0(1) reaping_sys_reachable, of 2] reaping_sys_runs
  by simp

text \<open>
  C6. Every coroutine ends: the suspension points a coroutine goes through, from one resumption
  to the next, descend in a well-founded order, so no call but a running generation can be
  resumed forever, however the others are interleaved with it.
\<close>

theorem every_call_ends:
  "wf {(q, p). \<exists>i c s t. step i c s = Some t \<and> p = pcs s i \<and> q = pcs t i \<and>
         \<not> in_flight p \<and> \<not> exited t}"
  by (rule wf_subset[OF wf_pc_order]) (auto intro: cstep_progress step_cstep)



section \<open>One call at a time\<close>

text \<open>
  C8. A resume reloads in up to three attempts: it returns with the core up and RUNNING exactly
  when one of them succeeds, and otherwise the process exits; on an engine that is not paused
  it changes nothing.
\<close>

theorem resume_reloads_or_exits:
  assumes "vllm_settled e"
  shows "run_call w CResume e =
      (if e_state e \<noteq> PAUSED then (e, Inr ())
       else case reload_attempt w of
              Some r \<Rightarrow> (core_loaded r e, Inr ())
            | None \<Rightarrow> (fst (run_call w CResume e), Inl ProcessExit))"
  using run_resume_paused[OF assms, of w] run_resume_other[OF assms, of w]
  by (auto simp: prod_eq_iff split: option.splits)

definition flaky_world :: world where
  "flaky_world =
     \<lparr>wd_create = (\<lambda>n. if n < 3 then None else Some (7, Some [], Some [41])),
      wd_error = OtherExn ''OOM'' '''', wd_alive = []\<rparr>"

lemma settled_boot_paused: "vllm_settled (start_paused_engine ''m'' vllm0)"
  by (simp add: vllm_settled_def eng_ok_def start_paused_engine_def vllm0_def vllm_init_def)

theorem resume_reloads_or_exits_witness:
  "run_call flaky_world CResume (start_paused_engine ''m'' vllm0) =
     (core_loaded (7, Some [], Some [41]) (start_paused_engine ''m'' vllm0), Inr ())"
  by (subst resume_reloads_or_exits[OF settled_boot_paused])
     (simp add: reload_attempt_def flaky_world_def start_paused_engine_def)



text \<open>
  The last request of the scheduler can be lost: when a resume follows a pause that the
  loading engine still has pending, the resume returns without cancelling it, and the engine
  ends PAUSED with every call returned.
\<close>

lemma resume_lost_while_loading:
  "\<exists>t. execute lost_resume_trace (boot_paused ''m'' vllm0) = Some t \<and>
     allowed benign lost_resume_trace (boot_paused ''m'' vllm0) \<and>
     (\<forall>i. finished (pcs t i)) \<and> pcs t 2 = Returned \<and> e_state (eng t) = PAUSED"
  by (rule lost_resume)

text \<open>
  A soft pause whose core dies during the drain returns without pausing and leaves the drain
  gate down: after the recovery the engine is RUNNING, holds a core, and accepts nobody.
\<close>

lemma soft_pause_can_strand_engine:
  "\<exists>t. execute stuck_gate_trace (boot_start ''m'' vllm0) = Some t \<and>
     allowed benign stuck_gate_trace (boot_start ''m'' vllm0) \<and>
     (\<forall>i. finished (pcs t i)) \<and> pcs t 2 = Returned \<and>
     e_state (eng t) = RUNNING \<and> e_engine (eng t) = Some 8 \<and> \<not> is_available (eng t)"
  by (rule stuck_gate)



section \<open>Generation and polling\<close>


definition two_outputs :: "gen_event list" where
  "two_outputs =
     [Output True \<lparr>ro_text = ''He'', ro_prompt_token_ids = Some [1, 2], ro_token_ids = Some [7],
        ro_finish_reason = None, ro_num_cached_tokens = AttrInt 9\<rparr>,
      Output True \<lparr>ro_text = ''Hello'', ro_prompt_token_ids = Some [1, 2],
        ro_token_ids = Some [7, 8], ro_finish_reason = Some ''length'',
        ro_num_cached_tokens = AttrInt 9\<rparr>]"


text \<open>
  C19. The two views of a request agree.  In every run of the engine, with any calls of the
  other methods interleaved, a coroutine that generates returns or raises exactly as
  \<open>generate\<close>, or \<open>generate_stream\<close>, says for the outputs, the failures and the engine states
  it met on the way.
\<close>

theorem request_ends_as_generate_says:
  assumes "execute ls s = Some t" and "pcs s i = Generating rid streaming"
    and "events_seen False evs (saw i ls s)"
  shows "pcs t i =
    (if streaming
     then (case snd (generate_stream True evs) of None \<Rightarrow> Returned | Some x \<Rightarrow> Raised x)
     else (case generate True evs of Inr r \<Rightarrow> Returned | Inl x \<Rightarrow> Raised x))"
  using request_ends[OF assms(1,2), of None evs] assms(3)
  by (simp add: ends_as_def generate_def generate_stream_def)

text \<open>A request that has its second output while an immediate pause is under way.\<close>

definition serving_sys :: sys where
  "serving_sys = the (execute (take 5 pause_trace) (boot_start ''m'' vllm0))"

definition cut_short :: "label list" where
  "cut_short = [LRun 1 Token, LCall 2 (CPause IMMEDIATE), LRun 2 Go, LRun 1 Token]"

theorem request_ends_as_generate_says_witness:
  "\<exists>t. execute cut_short serving_sys = Some t \<and> pcs t 1 = Raised paused_error"
proof -
  let ?out = "\<lparr>ro_text = ''He'', ro_prompt_token_ids = None, ro_token_ids = None,
    ro_finish_reason = None, ro_num_cached_tokens = NoAttr\<rparr>"
  obtain t where run: "execute cut_short serving_sys = Some t"
    "pcs serving_sys 1 = Generating ''r1'' False"
    "saw 1 cut_short serving_sys = [(Token, True), (Token, False)]"
    by (simp add: cut_short_def serving_sys_def trace_defs)
  from request_ends_as_generate_says[OF run(1,2), of "[Output True ?out, Output False ?out]"] run
  show ?thesis by (simp add: generate_def)
qed

text \<open>
  C13. The drain ends within its time limit and one turn: with a clock that moves on by the
  sleep of each turn it returns, it says drained only when no request is left, and it gives up
  only when requests are left after the limit.
\<close>

theorem drain_ends_in_time:
  assumes "\<forall>j. snd (obs j) + 1 / 10 \<le> snd (obs (j + 1))" and "now \<le> snd (obs 0)"
    and "timeout < of_nat n / 10"
  shows "\<exists>k r. drain_requests active now timeout obs = Some (k, r) \<and> k \<le> n \<and>
    (r = Drained \<longrightarrow> active = 0 \<or> fst (obs k) \<le> 0) \<and>
    (r = DrainTimeout \<longrightarrow> fst (obs k) > 0 \<and> snd (obs k) > now + timeout)"
proof (cases "active = 0")
  case True
  then show ?thesis by (simp add: drain_requests_def)
next
  case False
  have "\<exists>r. drain_loop obs (now + timeout) 0 = Some r \<and> fst r \<le> 0 + n"
    using assms by (intro drain_loop_ends) simp_all
  then obtain k r where kr: "drain_loop obs (now + timeout) 0 = Some (k, r)" "k \<le> n" by auto
  from drain_loop_sound[OF kr(1)] False kr show ?thesis
    by (auto simp: drain_requests_def drain_sound_def split: drain_end.splits)
qed

theorem drain_ends_in_time_witness:
  "\<exists>k r. drain_requests 3 0 1 (\<lambda>k. (if k < 4 then 2 else 0, of_nat k / 10)) = Some (k, r) \<and>
     k \<le> 11 \<and> (r = DrainTimeout \<longrightarrow> k < 4)"
proof -
  let ?o = "\<lambda>k. (if k < 4 then 2 else 0 :: int, of_nat k / 10 :: rat)"
  have "\<exists>k r. drain_requests 3 0 1 ?o = Some (k, r) \<and> k \<le> 11 \<and>
      (r = Drained \<longrightarrow> (3 :: int) = 0 \<or> fst (?o k) \<le> 0) \<and>
      (r = DrainTimeout \<longrightarrow> fst (?o k) > 0 \<and> snd (?o k) > 0 + 1)"
    by (rule drain_ends_in_time) (simp_all add: add_divide_distrib)
  then show ?thesis by (fastforce split: if_splits)
qed

text \<open>
  C14. So does the wait for free GPU memory: it reports released only on a reading that is high
  enough, and gives up early only when the query never answered.
\<close>

theorem vram_wait_ends:
  assumes "\<forall>j. fst (obs (wait_gpu_id (e_device_ids e)) j) + 1 / 2 \<le>
      fst (obs (wait_gpu_id (e_device_ids e)) (j + 1))"
    and "now \<le> fst (obs (wait_gpu_id (e_device_ids e)) 0)" and "timeout \<le> of_nat n / 2"
  shows "\<exists>k r. wait_for_vram_release e now timeout obs = Some (k, r) \<and> k \<le> n \<and>
    vram_sound (obs (wait_gpu_id (e_device_ids e))) (now + timeout) (e_gpu_memory_utilization e) k r"
proof -
  let ?o = "obs (wait_gpu_id (e_device_ids e))"
  have "\<exists>r. vram_loop ?o (now + timeout) (e_gpu_memory_utilization e) False 0 0 = Some r \<and>
      fst r \<le> 0 + n"
    using assms by (intro vram_loop_ends) simp_all
  then obtain k r where
    kr: "vram_loop ?o (now + timeout) (e_gpu_memory_utilization e) False 0 0 = Some (k, r)" "k \<le> n"
    by auto
  from vram_loop_sound[OF kr(1)] kr show ?thesis by (simp add: wait_for_vram_release_def)
qed

theorem vram_wait_ends_witness:
  "\<exists>k r. wait_for_vram_release vllm0 0 15 (\<lambda>g k. (of_nat k / 2, if k < 2 then None else Some 1)) =
     Some (k, r) \<and> k \<le> 30 \<and> (r = Unverified \<longrightarrow> k < 2)"
proof -
  let ?o = "\<lambda>(g :: int) k. (of_nat k / 2 :: rat, if k < 2 then None else Some (1 :: rat))"
  have "\<exists>k r. wait_for_vram_release vllm0 0 15 ?o = Some (k, r) \<and> k \<le> 30 \<and>
      vram_sound (?o (wait_gpu_id (e_device_ids vllm0))) (0 + 15)
        (e_gpu_memory_utilization vllm0) k r"
    by (rule vram_wait_ends) (simp_all add: add_divide_distrib)
  then show ?thesis by (fastforce simp: vram_sound_def split: if_splits)
qed

end
