(* ===== verification/Pool.thy ===== *)
theory Pool
  imports Engine_Solo "HOL-Library.AList"
begin

text \<open>
  \<open>EnginePool\<close> of \<open>inference/engine_pool.py\<close>: the pool of engines behind the API server and
  the scheduler listener, over any engine that keeps the contract of \<open>Engine_Ops\<close>.

  An engine object is named by its index in the pool.  A session entry of the dictionary
  \<open>_engine_sessions\<close> is (key, engine, expiry), in insertion order.
\<close>

section \<open>State\<close>

record 'e pool =
  p_mode :: string
  p_engines :: "'e list"
  p_lb_strategy :: string
  p_rr_index :: nat
  p_pause_requested :: bool
  p_switching :: bool
  p_sessions :: "(string \<times> nat \<times> rat) list"

definition session_ttl :: rat where "session_ttl = 600"
definition affinity_slack :: int where "affinity_slack = 2"
definition session_bound :: nat where "session_bound = 4096"
definition evict_batch :: nat where "evict_batch = 512"

definition pool_init :: "string \<Rightarrow> 'e list \<Rightarrow> string \<Rightarrow> 'e pool" where
  "pool_init mode engines lb =
     \<lparr>p_mode = mode, p_engines = engines, p_lb_strategy = lb, p_rr_index = 0,
      p_pause_requested = False, p_switching = False, p_sessions = []\<rparr>"

abbreviation (input) tensor_parallel :: "'e pool \<Rightarrow> bool" where
  "tensor_parallel p \<equiv> p_mode p = ''tensor_parallel''"

abbreviation (input) multi_instance :: "'e pool \<Rightarrow> bool" where
  "multi_instance p \<equiv> p_mode p = ''multi_instance''"

text \<open>\<open>self._engines[0]\<close>\<close>

definition first_engine :: "'e pool \<Rightarrow> 'e result" where
  "first_engine p =
     (case p_engines p of [] \<Rightarrow> Inl (IndexError ''list index out of range'') | e # es \<Rightarrow> Inr e)"

section \<open>The calls that fan out\<close>

text \<open>
  \<open>asyncio.gather\<close> runs one call on every engine; the engines share no state.  It raises
  the first exception; the other calls run on to their end, which is the state given here.
\<close>

fun first_error :: "unit result list \<Rightarrow> unit result" where
  "first_error [] = Inr ()"
| "first_error (Inl x # rs) = Inl x"
| "first_error (Inr u # rs) = first_error rs"

definition gather :: "'e meth \<Rightarrow> 'e pool meth" where
  "gather f p =
     (p\<lparr>p_engines := map (\<lambda>e. fst (f e)) (p_engines p)\<rparr>,
      first_error (map (\<lambda>e. snd (f e)) (p_engines p)))"

definition pool_start :: "'e engine_ops \<Rightarrow> string \<Rightarrow> 'e pool meth" where
  "pool_start ops path p =
     (if tensor_parallel p
      then (case p_engines p of
              [] \<Rightarrow> (p, Inl (IndexError ''list index out of range''))
            | e # es \<Rightarrow> (p\<lparr>p_engines := fst (op_start ops path e) # es\<rparr>, snd (op_start ops path e)))
      else gather (op_start ops path) p)"

definition pool_start_paused :: "'e engine_ops \<Rightarrow> string \<Rightarrow> 'e pool \<Rightarrow> 'e pool" where
  "pool_start_paused ops path p =
     p\<lparr>p_engines := map (op_start_paused ops path) (p_engines p)\<rparr>"

definition request_pause :: "'e pool \<Rightarrow> 'e pool" where
  "request_pause p = p\<lparr>p_pause_requested := True\<rparr>"

definition pool_pause :: "'e engine_ops \<Rightarrow> yield_urgency \<Rightarrow> 'e pool meth" where
  "pool_pause ops u p = gather (op_pause ops u) (p\<lparr>p_pause_requested := True\<rparr>)"

definition pool_stop :: "'e engine_ops \<Rightarrow> 'e pool meth" where
  "pool_stop ops p = gather (op_stop ops) p"

section \<open>The sequential loops\<close>

text \<open>
  One turn of the loop of \<open>resume\<close> and \<open>switch_model\<close> in multi-instance mode, at
  engine \<open>i\<close>: a requested pause ends the loop, an exception leaves it, otherwise it goes
  on (\<open>None\<close>) with the next engine.
\<close>

definition loop_turn :: "'e meth \<Rightarrow> nat \<Rightarrow> 'e pool \<Rightarrow> 'e pool \<times> unit result option" where
  "loop_turn f i p =
     (if length (p_engines p) \<le> i \<or> p_pause_requested p then (p, Some (Inr ()))
      else (p\<lparr>p_engines := (p_engines p)[i := fst (f (p_engines p ! i))]\<rparr>,
            case snd (f (p_engines p ! i)) of Inl x \<Rightarrow> Some (Inl x) | Inr _ \<Rightarrow> None))"

lemma loop_turn_length [simp]:
  "length (p_engines (fst (loop_turn f i p))) = length (p_engines p)"
  by (simp add: loop_turn_def)

lemma loop_turn_continues:
  "snd (loop_turn f i p) = None \<Longrightarrow> i < length (p_engines p) \<and> \<not> p_pause_requested p"
  by (auto simp: loop_turn_def split: if_splits)

function run_loop :: "'e meth \<Rightarrow> nat \<Rightarrow> 'e pool meth" where
  "run_loop f i p =
     (case snd (loop_turn f i p) of
        Some r \<Rightarrow> (fst (loop_turn f i p), r)
      | None \<Rightarrow> run_loop f (Suc i) (fst (loop_turn f i p)))"
  by pat_completeness auto
termination
  by (relation "measure (\<lambda>(f, i, p). length (p_engines p) - i)")
     (auto dest: loop_turn_continues)

declare run_loop.simps [simp del]

text \<open>The calls when nothing else runs on the event loop meanwhile.\<close>

definition pool_resume :: "'e engine_ops \<Rightarrow> 'e pool meth" where
  "pool_resume ops p =
     (let p' = p\<lparr>p_pause_requested := False\<rparr> in
      if multi_instance p then run_loop (op_resume ops) 0 p' else gather (op_resume ops) p')"

definition pool_switch_model :: "'e engine_ops \<Rightarrow> string \<Rightarrow> 'e pool meth" where
  "pool_switch_model ops new p =
     (let p' = p\<lparr>p_switching := True\<rparr>;
          (q, r) = (if multi_instance p then run_loop (op_switch ops new) 0 p'
                    else gather (op_switch ops new) p') in
      (q\<lparr>p_switching := False\<rparr>, r))"

section \<open>Queries\<close>

definition pool_current_model :: "'e engine_ops \<Rightarrow> 'e pool \<Rightarrow> string" where
  "pool_current_model ops p = (case p_engines p of [] \<Rightarrow> '''' | e # es \<Rightarrow> op_model ops e)"

definition pool_is_available :: "'e engine_ops \<Rightarrow> 'e pool \<Rightarrow> bool result" where
  "pool_is_available ops p =
     (if tensor_parallel p then bind_result (first_engine p) (\<lambda>e. Inr (op_available ops e))
      else Inr (list_ex (op_available ops) (p_engines p)))"

definition aggregate_state :: "engine_state list \<Rightarrow> engine_state" where
  "aggregate_state states =
     (if list_ex (\<lambda>s. s = RUNNING) states then RUNNING
      else if list_all (\<lambda>s. s = DEAD) states then DEAD
      else if list_all (\<lambda>s. s = PAUSED) states then PAUSED
      else if list_all (\<lambda>s. s = STOPPED) states then STOPPED
      else PAUSED)"

text \<open>The defaults of \<open>EngineStatus\<close> fill the fields that are not aggregated.\<close>

definition pool_status :: "'e engine_ops \<Rightarrow> 'e pool \<Rightarrow> engine_status result" where
  "pool_status ops p =
     (if tensor_parallel p
      then bind_result (first_engine p)
        (\<lambda>e. let s = op_status ops e in
           if p_switching p \<and> es_state s = RUNNING
           then Inr \<lparr>es_state = LOADING, es_active_requests = es_active_requests s,
                     es_gpu_utilization_pct = 0, es_loaded_model = es_loaded_model s,
                     es_gpu_id = es_gpu_id s\<rparr>
           else Inr s)
      else
        (let statuses = map (op_status ops) (p_engines p);
             agg = aggregate_state (map es_state statuses) in
         Inr \<lparr>es_state = (if p_switching p then LOADING else agg),
              es_active_requests = sum_list (map es_active_requests statuses),
              es_gpu_utilization_pct = 0,
              es_loaded_model = (case statuses of [] \<Rightarrow> '''' | s # ss \<Rightarrow> es_loaded_model s),
              es_gpu_id = -1\<rparr>))"

record engine_row =
  row_index :: nat
  row_gpu_id :: int
  row_state :: string
  row_active_requests :: int
  row_loaded_model :: string

definition detailed_status :: "'e engine_ops \<Rightarrow> 'e pool \<Rightarrow> string \<times> nat \<times> string \<times> engine_row list" where
  "detailed_status ops p =
     (p_mode p, length (p_engines p), p_lb_strategy p,
      map (\<lambda>(i, e). let s = op_status ops e in
             \<lparr>row_index = i, row_gpu_id = es_gpu_id s, row_state = state_value (es_state s),
              row_active_requests = es_active_requests s,
              row_loaded_model = es_loaded_model s\<rparr>)
        (zip [0..<length (p_engines p)] (p_engines p)))"

section \<open>Routing a request\<close>

definition available_engines :: "'e engine_ops \<Rightarrow> 'e pool \<Rightarrow> nat list" where
  "available_engines ops p =
     filter (\<lambda>i. op_available ops (p_engines p ! i)) [0..<length (p_engines p)]"

definition engine_load :: "'e engine_ops \<Rightarrow> 'e pool \<Rightarrow> nat \<Rightarrow> int" where
  "engine_load ops p i = es_active_requests (op_status ops (p_engines p ! i))"

text \<open>A key counts when it is a non-empty string.\<close>

fun session_of :: "string option \<Rightarrow> string option" where
  "session_of (Some (c # cs)) = Some (c # cs)"
| "session_of _ = None"

definition pinned_engine :: "'e engine_ops \<Rightarrow> rat \<Rightarrow> string \<Rightarrow> 'e pool \<Rightarrow> nat option" where
  "pinned_engine ops now key p =
     (case map_of (p_sessions p) key of
        None \<Rightarrow> None
      | Some (i, expiry) \<Rightarrow>
          (let av = available_engines ops p in
           if now < expiry \<and> i \<in> set av \<and>
              engine_load ops p i \<le> min_list (map (engine_load ops p) av) + affinity_slack
           then Some i else None))"

definition balance :: "'e engine_ops \<Rightarrow> nat list \<Rightarrow> 'e pool \<Rightarrow> 'e pool \<times> nat" where
  "balance ops av p =
     (if p_lb_strategy p = ''least_busy'' then (p, arg_min_list (engine_load ops p) av)
      else (p\<lparr>p_rr_index := p_rr_index p + 1\<rparr>, av ! (p_rr_index p mod length av)))"

definition pin_session :: "rat \<Rightarrow> string \<Rightarrow> nat \<Rightarrow> 'e pool \<Rightarrow> 'e pool" where
  "pin_session now key i p =
     p\<lparr>p_sessions := AList.update key (i, now + session_ttl) (p_sessions p)\<rparr>"

definition expired_keys :: "rat \<Rightarrow> (string \<times> nat \<times> rat) list \<Rightarrow> string list" where
  "expired_keys now ss = map fst (filter (\<lambda>(k, i, expiry). expiry \<le> now) ss)"

definition evict_sessions :: "rat \<Rightarrow> 'e pool \<Rightarrow> 'e pool" where
  "evict_sessions now p =
     (if session_bound < length (p_sessions p)
      then p\<lparr>p_sessions :=
        fold AList.delete (take evict_batch (expired_keys now (p_sessions p))) (p_sessions p)\<rparr>
      else p)"

definition pick_engine :: "'e engine_ops \<Rightarrow> rat \<Rightarrow> string option \<Rightarrow> 'e pool \<Rightarrow> 'e pool \<times> nat result" where
  "pick_engine ops now key p =
     (let av = available_engines ops p in
      if av = [] then (p, Inl (RuntimeError ''No engines available for inference''))
      else case session_of key of
        None \<Rightarrow> (let (q, i) = balance ops av p in (q, Inr i))
      | Some k \<Rightarrow>
          (case pinned_engine ops now k p of
             Some i \<Rightarrow> (pin_session now k i p, Inr i)
           | None \<Rightarrow>
               (let (q, i) = balance ops av p in
                (evict_sessions now (pin_session now k i q), Inr i))))"

text \<open>\<open>generate\<close> and \<open>generate_stream\<close> up to the call they forward.\<close>

definition route :: "'e engine_ops \<Rightarrow> rat \<Rightarrow> string option \<Rightarrow> 'e pool \<Rightarrow> 'e pool \<times> nat result" where
  "route ops now key p =
     (if tensor_parallel p then (p, bind_result (first_engine p) (\<lambda>_. Inr 0))
      else pick_engine ops now key p)"

end
