(* ===== verification/Pool_Route.thy ===== *)
theory Pool_Route
  imports Pool
begin

text \<open>
  What \<open>_pick_engine\<close> guarantees: the engine it returns is available, the balancing
  strategies, session affinity, and what the eviction of the session table keeps.
\<close>

section \<open>Availability\<close>

lemma available_engines_iff:
  "i \<in> set (available_engines ops p) \<longleftrightarrow>
     i < length (p_engines p) \<and> op_available ops (p_engines p ! i)"
  by (auto simp: available_engines_def)

lemma available_engines_Nil:
  "available_engines ops p = [] \<longleftrightarrow> (\<forall>e \<in> set (p_engines p). \<not> op_available ops e)"
  by (auto simp: available_engines_def filter_empty_conv in_set_conv_nth) (meson nth_mem)

lemma distinct_available [simp]: "distinct (available_engines ops p)"
  by (simp add: available_engines_def)

lemma arg_min_list_least:
  fixes f :: "'a \<Rightarrow> 'b::linorder"
  shows "xs \<noteq> [] \<Longrightarrow> x \<in> set xs \<Longrightarrow> f (arg_min_list f xs) \<le> f x"
  by (induction f xs rule: arg_min_list.induct) (auto simp: Let_def)

lemma balance_in:
  "av \<noteq> [] \<Longrightarrow> snd (balance ops av p) \<in> set av"
  by (simp add: balance_def arg_min_list_in)

lemma balance_engines [simp]:
  "p_engines (fst (balance ops av p)) = p_engines p"
  "p_sessions (fst (balance ops av p)) = p_sessions p"
  "p_lb_strategy (fst (balance ops av p)) = p_lb_strategy p"
  "p_mode (fst (balance ops av p)) = p_mode p"
  by (simp_all add: balance_def)

lemma pin_session_sel [simp]:
  "p_engines (pin_session now k i p) = p_engines p"
  "p_rr_index (pin_session now k i p) = p_rr_index p"
  "p_lb_strategy (pin_session now k i p) = p_lb_strategy p"
  "p_sessions (pin_session now k i p) =
     AList.update k (i, now + session_ttl) (p_sessions p)"
  by (simp_all add: pin_session_def)

lemma evict_sessions_sel [simp]:
  "p_engines (evict_sessions now p) = p_engines p"
  "p_rr_index (evict_sessions now p) = p_rr_index p"
  "p_lb_strategy (evict_sessions now p) = p_lb_strategy p"
  by (simp_all add: evict_sessions_def)

text \<open>The two ways a pick ends well: the session's engine, or the balancer's choice.\<close>

lemma pick_engine_cases:
  assumes "pick_engine ops now key p = (q, Inr i)"
  obtains (pinned) k where "session_of key = Some k" "pinned_engine ops now k p = Some i"
      "q = pin_session now k i p"
    | (keyless) "session_of key = None" "available_engines ops p \<noteq> []"
      "(q, i) = balance ops (available_engines ops p) p"
    | (balanced) k b where "session_of key = Some k" "pinned_engine ops now k p = None"
      "available_engines ops p \<noteq> []" "(b, i) = balance ops (available_engines ops p) p"
      "q = evict_sessions now (pin_session now k i b)"
  using assms
  by (auto simp: pick_engine_def Let_def split: if_splits option.splits prod.splits)

lemma pinned_available:
  "pinned_engine ops now k p = Some i \<Longrightarrow> i \<in> set (available_engines ops p)"
  by (auto simp: pinned_engine_def Let_def split: option.splits if_splits)

lemma pick_available:
  assumes "pick_engine ops now key p = (q, Inr i)"
  shows "i < length (p_engines p) \<and> op_available ops (p_engines p ! i) \<and>
    p_engines q = p_engines p"
  using assms
proof (cases rule: pick_engine_cases)
  case pinned
  then show ?thesis using pinned_available available_engines_iff by fastforce
next
  case keyless
  then show ?thesis
    using balance_in[OF keyless(2), of ops p] balance_engines(1)[of ops "available_engines ops p" p]
    by (metis available_engines_iff fst_conv snd_conv)
next
  case (balanced k b)
  then show ?thesis
    using balance_in[OF balanced(3), of ops p] balance_engines(1)[of ops "available_engines ops p" p]
    by (metis available_engines_iff evict_sessions_sel(1) fst_conv pin_session_sel(1) snd_conv)
qed

lemma pick_raises:
  "snd (pick_engine ops now key p) =
     Inl (RuntimeError ''No engines available for inference'') \<longleftrightarrow>
   (\<forall>e \<in> set (p_engines p). \<not> op_available ops e)"
  by (auto simp: pick_engine_def Let_def available_engines_Nil[symmetric]
    split: option.splits prod.splits)

lemma pick_raises_nothing_else:
  "snd (pick_engine ops now key p) = Inl x \<Longrightarrow>
     x = RuntimeError ''No engines available for inference''"
  by (auto simp: pick_engine_def Let_def split: option.splits prod.splits if_splits)

section \<open>Balancing\<close>

text \<open>\<open>n\<close> picks without a session over engines that do not change meanwhile.\<close>

fun picks :: "'e engine_ops \<Rightarrow> rat \<Rightarrow> nat \<Rightarrow> 'e pool \<Rightarrow> nat result list" where
  "picks ops now 0 p = []"
| "picks ops now (Suc n) p =
     snd (pick_engine ops now None p) # picks ops now n (fst (pick_engine ops now None p))"

lemma picks_round_robin:
  assumes "p_lb_strategy p \<noteq> ''least_busy''" and "available_engines ops p = av" and "av \<noteq> []"
  shows "picks ops now n p = map (\<lambda>j. Inr (av ! ((p_rr_index p + j) mod length av))) [0..<n]"
  using assms
proof (induction n arbitrary: p)
  case (Suc n)
  let ?q = "p\<lparr>p_rr_index := p_rr_index p + 1\<rparr>"
  have pick: "pick_engine ops now None p = (?q, Inr (av ! (p_rr_index p mod length av)))"
    using Suc.prems by (simp add: pick_engine_def balance_def Let_def)
  have "available_engines ops ?q = av"
    using Suc.prems(2) by (simp add: available_engines_def)
  with Suc.IH[of ?q] Suc.prems(1,3)
  have "picks ops now n ?q = map (\<lambda>j. Inr (av ! ((p_rr_index p + 1 + j) mod length av))) [0..<n]"
    by simp
  also have "\<dots> = map (\<lambda>j. Inr (av ! ((p_rr_index p + j) mod length av))) (map Suc [0..<n])"
    by simp
  finally show ?case
    by (simp add: pick map_Suc_upt upt_conv_Cons del: upt_Suc)
qed simp

lemma round_robin_rotates:
  assumes "p_lb_strategy p \<noteq> ''least_busy''" and "available_engines ops p = av" and "av \<noteq> []"
  shows "picks ops now (length av) p = map Inr (rotate (p_rr_index p) av)"
proof (rule nth_equalityI)
  show "length (picks ops now (length av) p) = length (map Inr (rotate (p_rr_index p) av))"
    by (simp add: picks_round_robin[OF assms])
  fix j assume "j < length (picks ops now (length av) p)"
  then have "j < length av" by (simp add: picks_round_robin[OF assms])
  then show "picks ops now (length av) p ! j = map Inr (rotate (p_rr_index p) av) ! j"
    by (simp add: picks_round_robin[OF assms] nth_rotate)
qed

lemma least_busy_pick:
  assumes "p_lb_strategy p = ''least_busy''" and "session_of key = None"
    and "pick_engine ops now key p = (q, Inr i)" and "j \<in> set (available_engines ops p)"
  shows "engine_load ops p i \<le> engine_load ops p j \<and> q = p"
  using assms
  by (auto simp: pick_engine_def balance_def Let_def split: if_splits intro: arg_min_list_least)

section \<open>The session table\<close>

lemma map_of_fold_delete:
  "k \<notin> set ks \<Longrightarrow> map_of (fold AList.delete ks al) k = map_of al k"
  by (induction ks arbitrary: al) (simp_all add: delete_conv)

lemma distinct_fold_delete:
  "distinct (map fst al) \<Longrightarrow> distinct (map fst (fold AList.delete ks al))"
  by (induction ks arbitrary: al) (simp_all add: distinct_delete)

lemma distinct_update_sessions:
  "distinct (map fst al) \<Longrightarrow> distinct (map fst (AList.update k v al))"
  by (simp add: distinct_update)

text \<open>Eviction only drops keys that have expired.\<close>

lemma evict_keeps:
  assumes "distinct (map fst (p_sessions p))"
    and "map_of (p_sessions p) k = Some (i, expiry)" and "now < expiry"
  shows "map_of (p_sessions (evict_sessions now p)) k = Some (i, expiry)"
proof -
  have "k \<notin> set (expired_keys now (p_sessions p))"
    using assms by (auto simp: expired_keys_def dest: map_of_is_SomeI[rotated])
  then have "k \<notin> set (take evict_batch (expired_keys now (p_sessions p)))"
    by (meson in_set_takeD)
  with assms(2) show ?thesis by (simp add: evict_sessions_def map_of_fold_delete)
qed

lemma evict_distinct:
  "distinct (map fst (p_sessions p)) \<Longrightarrow> distinct (map fst (p_sessions (evict_sessions now p)))"
  by (simp add: evict_sessions_def distinct_fold_delete)

lemma pick_distinct:
  assumes "distinct (map fst (p_sessions p))"
  shows "distinct (map fst (p_sessions (fst (pick_engine ops now key p))))"
proof (cases "pick_engine ops now key p")
  case (Pair q r)
  show ?thesis
  proof (cases r)
    case (Inl x)
    with Pair have "q = p"
      by (auto simp: pick_engine_def Let_def split: if_splits option.splits prod.splits)
    with Pair assms show ?thesis by simp
  next
    case (Inr i)
    with Pair have "pick_engine ops now key p = (q, Inr i)" by simp
    then have "distinct (map fst (p_sessions q))"
    proof (cases rule: pick_engine_cases)
      case pinned
      with assms show ?thesis by (simp add: distinct_update_sessions)
    next
      case keyless
      with assms balance_engines(2)[of ops "available_engines ops p" p] show ?thesis
        by (metis fst_conv)
    next
      case (balanced k b)
      with assms balance_engines(2)[of ops "available_engines ops p" p]
      have "p_sessions b = p_sessions p" by (metis fst_conv)
      with balanced(5) assms show ?thesis
        by (auto intro: evict_distinct simp: distinct_update_sessions)
    qed
    with Pair show ?thesis by simp
  qed
qed

text \<open>A pick with a session leaves it pinned to the engine it returned.\<close>

lemma pick_pins:
  assumes "distinct (map fst (p_sessions p))" and "session_of key = Some k"
    and "pick_engine ops now key p = (q, Inr i)"
  shows "map_of (p_sessions q) k = Some (i, now + session_ttl)"
  using assms(3)
proof (cases rule: pick_engine_cases)
  case (pinned k')
  with assms(2) show ?thesis by (simp add: update_conv')
next
  case keyless
  with assms(2) show ?thesis by simp
next
  case (balanced k' b)
  with assms(2) have k: "k' = k" by simp
  have "p_sessions b = p_sessions p"
    using balanced(4) balance_engines(2)[of ops "available_engines ops p" p] by (metis fst_conv)
  then have "distinct (map fst (p_sessions (pin_session now k i b)))"
    using assms(1) by (simp add: distinct_update_sessions)
  moreover have "map_of (p_sessions (pin_session now k i b)) k = Some (i, now + session_ttl)"
    by (simp add: update_conv')
  moreover have "now < now + session_ttl" by (simp add: session_ttl_def)
  ultimately show ?thesis using balanced(5) k evict_keeps by blast
qed

text \<open>
  Affinity: within the time to live the session goes back to its engine, as long as that one
  is available and at most two requests busier than the least busy.
\<close>

lemma affinity:
  assumes "map_of (p_sessions p) k = Some (i, expiry)" and "now < expiry"
    and "session_of key = Some k" and "i \<in> set (available_engines ops p)"
    and "\<forall>j \<in> set (available_engines ops p).
      engine_load ops p i \<le> engine_load ops p j + affinity_slack"
  shows "pick_engine ops now key p = (pin_session now k i p, Inr i)"
proof -
  let ?av = "available_engines ops p"
  have ne: "?av \<noteq> []" using assms(4) by auto
  then have "min_list (map (engine_load ops p) ?av) \<in> set (map (engine_load ops p) ?av)"
    by (simp add: min_list_Min del: set_map)
  then obtain j where "j \<in> set ?av" "min_list (map (engine_load ops p) ?av) = engine_load ops p j"
    by auto
  with assms have "pinned_engine ops now k p = Some i" by (simp add: pinned_engine_def)
  with assms(3) ne show ?thesis by (simp add: pick_engine_def)
qed

text \<open>An overloaded or lost engine sends the session to the balancer, which pins it anew.\<close>

lemma affinity_gives_way:
  assumes "pick_engine ops now key p = (q, Inr i)" and "session_of key = Some k"
    and "map_of (p_sessions p) k = Some (j, expiry)"
    and "engine_load ops p l + affinity_slack < engine_load ops p j"
    and "l \<in> set (available_engines ops p)"
  shows "i = snd (balance ops (available_engines ops p) p)"
proof -
  have ne: "available_engines ops p \<noteq> []" using assms(5) by auto
  then have "min_list (map (engine_load ops p) (available_engines ops p)) \<le> engine_load ops p l"
    using assms(5) by (simp add: min_list_Min)
  with assms(3,4) have "pinned_engine ops now k p = None" by (simp add: pinned_engine_def Let_def)
  with assms(1,2) ne show ?thesis
    by (auto simp: pick_engine_def split: prod.splits)
qed

text \<open>
  The table is not bounded by \<open>session_bound\<close>: a fresh session always adds an entry when
  nothing has expired, whatever the size.
\<close>

lemma update_fresh: "k \<notin> fst ` set al \<Longrightarrow> AList.update k v al = al @ [(k, v)]"
  by (induction al) auto

lemma sessions_grow:
  assumes "session_of key = Some k" and "k \<notin> fst ` set (p_sessions p)"
    and "\<forall>(k', i, expiry) \<in> set (p_sessions p). now < expiry"
    and "pick_engine ops now key p = (q, Inr i)"
  shows "length (p_sessions q) = Suc (length (p_sessions p))"
  using assms(4)
proof (cases rule: pick_engine_cases)
  case (pinned k')
  with assms(1,2) show ?thesis by (simp add: update_fresh)
next
  case keyless
  with assms(1) show ?thesis by simp
next
  case (balanced k' b)
  with assms(1) have k: "k' = k" by simp
  have b: "p_sessions b = p_sessions p"
    using balanced(4) balance_engines(2)[of ops "available_engines ops p" p] by (metis fst_conv)
  have "p_sessions (pin_session now k i b) = p_sessions p @ [(k, i, now + session_ttl)]"
    using assms(2) b by (simp add: update_fresh)
  then have "expired_keys now (p_sessions (pin_session now k i b)) = []"
    using assms(3) by (auto simp: expired_keys_def filter_empty_conv session_ttl_def)
  with balanced(5) k b assms(2) show ?thesis
    by (simp add: evict_sessions_def update_fresh)
qed

end
