(* ===== verification/Pool_Life.thy ===== *)
theory Pool_Life
  imports Pool_Route
begin

text \<open>
  The pool as a whole: it keeps the observable contract of an engine, and what a yield
  request and a model switch do to calls that are in flight on the event loop.
\<close>

section \<open>The fanned-out calls\<close>

lemma first_error_Inr: "first_error rs = Inr u \<longleftrightarrow> (\<forall>r \<in> set rs. r = Inr ())"
  by (induction rs rule: first_error.induct) auto

lemma gather_sel [simp]:
  "p_engines (fst (gather f p)) = map (\<lambda>e. fst (f e)) (p_engines p)"
  "p_mode (fst (gather f p)) = p_mode p"
  "p_switching (fst (gather f p)) = p_switching p"
  "p_pause_requested (fst (gather f p)) = p_pause_requested p"
  by (simp_all add: gather_def)

lemma gather_returns:
  "snd (gather f p) = Inr () \<longleftrightarrow> (\<forall>e \<in> set (p_engines p). snd (f e) = Inr ())"
  by (simp add: gather_def first_error_Inr)

section \<open>The loops\<close>

lemma loop_turn_sel [simp]:
  "p_mode (fst (loop_turn f i p)) = p_mode p"
  "p_switching (fst (loop_turn f i p)) = p_switching p"
  "p_pause_requested (fst (loop_turn f i p)) = p_pause_requested p"
  by (simp_all add: loop_turn_def)

lemma run_loop_sel [simp]:
  "p_mode (fst (run_loop f i p)) = p_mode p \<and>
   p_switching (fst (run_loop f i p)) = p_switching p \<and>
   p_pause_requested (fst (run_loop f i p)) = p_pause_requested p"
proof (induction f i p rule: run_loop.induct)
  case (1 f i p)
  then show ?case by (subst (1 2 3) run_loop.simps) (simp split: option.split)
qed

lemma run_loop_paused: "p_pause_requested p \<Longrightarrow> run_loop f i p = (p, Inr ())"
  by (subst run_loop.simps) (simp add: loop_turn_def)

text \<open>Undisturbed, a loop that returns has called every engine from its start on, in order.\<close>

lemma run_loop_returns:
  assumes "snd (run_loop f i p) = Inr ()" and "\<not> p_pause_requested p"
  shows "p_engines (fst (run_loop f i p)) =
      take i (p_engines p) @ map (\<lambda>e. fst (f e)) (drop i (p_engines p)) \<and>
    (\<forall>e \<in> set (drop i (p_engines p)). snd (f e) = Inr ())"
  using assms
proof (induction f i p rule: run_loop.induct)
  case (1 f i p)
  show ?case
  proof (cases "length (p_engines p) \<le> i")
    case True
    then show ?thesis by (subst (1) run_loop.simps) (simp add: loop_turn_def)
  next
    case False
    let ?e = "p_engines p ! i" and ?q = "fst (loop_turn f i p)"
    have q: "p_engines ?q = (p_engines p)[i := fst (f ?e)]"
      using False "1.prems"(2) by (simp add: loop_turn_def)
    have step: "snd (f ?e) = Inr () \<Longrightarrow> snd (loop_turn f i p) = None"
      using False "1.prems"(2) by (simp add: loop_turn_def)
    have ret: "snd (f ?e) = Inr ()"
      using "1.prems" False
      by (subst (asm) run_loop.simps) (auto simp: loop_turn_def split: sum.splits)
    have run: "run_loop f i p = run_loop f (Suc i) ?q"
      by (subst run_loop.simps) (simp add: step ret)
    from "1.IH"[OF step[OF ret]] "1.prems" run
    have "p_engines (fst (run_loop f (Suc i) ?q)) =
        take (Suc i) (p_engines ?q) @ map (\<lambda>e. fst (f e)) (drop (Suc i) (p_engines ?q)) \<and>
      (\<forall>e \<in> set (drop (Suc i) (p_engines ?q)). snd (f e) = Inr ())"
      by simp
    moreover have "drop i (p_engines p) = ?e # drop (Suc i) (p_engines p)"
      using False by (simp add: Cons_nth_drop_Suc)
    ultimately show ?thesis
      using False ret run q by (simp add: take_Suc_conv_app_nth)
  qed
qed

lemma run_loop_from_start:
  assumes "snd (run_loop f 0 p) = Inr ()" and "\<not> p_pause_requested p"
  shows "p_engines (fst (run_loop f 0 p)) = map (\<lambda>e. fst (f e)) (p_engines p)"
    and "\<forall>e \<in> set (p_engines p). snd (f e) = Inr ()"
  using run_loop_returns[OF assms] by simp_all

lemma pool_switch_model_alt:
  "pool_switch_model ops new p =
     (let p' = p\<lparr>p_switching := True\<rparr>;
          b = (if multi_instance p then run_loop (op_switch ops new) 0 p'
               else gather (op_switch ops new) p') in
      ((fst b)\<lparr>p_switching := False\<rparr>, snd b))"
  by (simp add: pool_switch_model_def Let_def case_prod_unfold)

section \<open>The pool keeps the contract of an engine\<close>

definition pool_ops :: "'e engine_ops \<Rightarrow> 'e pool engine_ops" where
  "pool_ops ops =
     \<lparr>op_start = pool_start ops, op_pause = pool_pause ops, op_resume = pool_resume ops,
      op_stop = pool_stop ops, op_switch = pool_switch_model ops,
      op_available = (\<lambda>p. pool_is_available ops p = Inr True),
      op_status = (\<lambda>p. projr (pool_status ops p)), op_model = pool_current_model ops,
      op_start_paused = pool_start_paused ops\<rparr>"

text \<open>A pool as \<open>create_engine_pool\<close> builds it, with every engine settled, outside a switch.\<close>

definition pool_ok :: "('e \<Rightarrow> bool) \<Rightarrow> 'e pool \<Rightarrow> bool" where
  "pool_ok ok p \<longleftrightarrow>
     (tensor_parallel p \<and> length (p_engines p) = 1 \<or> multi_instance p \<and> p_engines p \<noteq> []) \<and>
     (\<forall>e \<in> set (p_engines p). ok e) \<and> \<not> p_switching p"

definition pool_state :: "'e engine_ops \<Rightarrow> 'e pool \<Rightarrow> engine_state" where
  "pool_state ops p = aggregate_state (map (op_state ops) (p_engines p))"

lemma aggregate_single:
  "s \<in> {STOPPED, RUNNING, PAUSED} \<Longrightarrow> aggregate_state [s] = s"
  by (auto simp: aggregate_state_def)

lemma aggregate_RUNNING: "aggregate_state ss = RUNNING \<longleftrightarrow> RUNNING \<in> set ss"
  by (auto simp: aggregate_state_def list_ex_iff)

lemma aggregate_STOPPED:
  "set ss \<subseteq> {STOPPED, RUNNING, PAUSED} \<Longrightarrow> ss \<noteq> [] \<Longrightarrow>
   aggregate_state ss = STOPPED \<longleftrightarrow> set ss = {STOPPED}"
  by (cases ss) (auto simp: aggregate_state_def list_ex_iff list_all_iff split: if_splits)

lemma aggregate_settled:
  "set ss \<subseteq> {STOPPED, RUNNING, PAUSED} \<Longrightarrow> ss \<noteq> [] \<Longrightarrow>
   aggregate_state ss \<in> {STOPPED, RUNNING, PAUSED}"
  by (cases ss) (auto simp: aggregate_state_def)

text \<open>The interface of the pool's engines, and the pool over it as an engine again.\<close>

locale pool_of_engines = engine: engine_contract ops ok
  for ops :: "'e engine_ops" and ok :: "'e \<Rightarrow> bool"
begin

lemma pool_states:
  "pool_ok ok p \<Longrightarrow>
     set (map (op_state ops) (p_engines p)) \<subseteq> {STOPPED, RUNNING, PAUSED} \<and>
     map (op_state ops) (p_engines p) \<noteq> []"
  using engine.settled by (auto simp: pool_ok_def)

lemma pool_op_state: "pool_ok ok p \<Longrightarrow> op_state (pool_ops ops) p = pool_state ops p"
proof -
  assume ok: "pool_ok ok p"
  have "op_state ops e \<in> {STOPPED, RUNNING, PAUSED}" if "p_engines p = [e]" for e
    using ok that by (intro engine.settled) (simp add: pool_ok_def)
  with ok show ?thesis
    by (cases "p_engines p")
       (auto simp: pool_ops_def pool_status_def pool_state_def pool_ok_def first_engine_def
        Let_def aggregate_single comp_def length_Suc_conv)
qed

lemma pool_state_iff:
  assumes "pool_ok ok p"
  shows "pool_state ops p = RUNNING \<longleftrightarrow> (\<exists>e \<in> set (p_engines p). op_state ops e = RUNNING)"
    and "pool_state ops p = STOPPED \<longleftrightarrow> (\<forall>e \<in> set (p_engines p). op_state ops e = STOPPED)"
    and "pool_state ops p = PAUSED \<longleftrightarrow>
      (\<forall>e \<in> set (p_engines p). op_state ops e \<noteq> RUNNING) \<and>
      (\<exists>e \<in> set (p_engines p). op_state ops e = PAUSED)"
    and "pool_state ops p \<in> {STOPPED, RUNNING, PAUSED}"
proof -
  note st = pool_states[OF assms]
  show r: "pool_state ops p = RUNNING \<longleftrightarrow> (\<exists>e \<in> set (p_engines p). op_state ops e = RUNNING)"
    unfolding pool_state_def aggregate_RUNNING set_map image_iff by metis
  show s: "pool_state ops p = STOPPED \<longleftrightarrow> (\<forall>e \<in> set (p_engines p). op_state ops e = STOPPED)"
  proof -
    have "pool_state ops p = STOPPED \<longleftrightarrow> set (map (op_state ops) (p_engines p)) = {STOPPED}"
      unfolding pool_state_def by (rule aggregate_STOPPED) (use st in simp_all)
    then show ?thesis using st by (cases "p_engines p") auto
  qed
  show t: "pool_state ops p \<in> {STOPPED, RUNNING, PAUSED}"
    unfolding pool_state_def by (rule aggregate_settled) (use st in simp_all)
  show "pool_state ops p = PAUSED \<longleftrightarrow>
      (\<forall>e \<in> set (p_engines p). op_state ops e \<noteq> RUNNING) \<and>
      (\<exists>e \<in> set (p_engines p). op_state ops e = PAUSED)"
  proof -
    have "op_state ops e \<in> {STOPPED, RUNNING, PAUSED}" if "e \<in> set (p_engines p)" for e
      using st that by auto
    then show ?thesis using r s t by auto
  qed
qed

lemma pool_available: "pool_ok ok p \<Longrightarrow>
  op_available (pool_ops ops) p \<longleftrightarrow> pool_state ops p = RUNNING"
proof -
  assume ok: "pool_ok ok p"
  have "op_available ops e \<longleftrightarrow> op_state ops e = RUNNING" if "e \<in> set (p_engines p)" for e
    using ok that by (intro engine.available) (simp add: pool_ok_def)
  then show ?thesis
    unfolding pool_state_iff(1)[OF ok] using ok
    by (auto simp: pool_ops_def pool_is_available_def pool_ok_def first_engine_def list_ex_iff
      length_Suc_conv)
qed

lemma pool_available_engines:
  assumes "pool_ok ok p"
  shows "op_available (pool_ops ops) p \<longleftrightarrow> (\<exists>e \<in> set (p_engines p). op_available ops e)"
proof -
  have "op_available ops e \<longleftrightarrow> op_state ops e = RUNNING" if "e \<in> set (p_engines p)" for e
    using assms that by (intro engine.available) (simp add: pool_ok_def)
  then show ?thesis unfolding pool_available[OF assms] pool_state_iff(1)[OF assms] by blast
qed

text \<open>A call that maps every engine keeps the pool well formed.\<close>

lemma pool_ok_map:
  assumes "pool_ok ok p" and "\<forall>e \<in> set (p_engines p). ok (f e)"
    and "p_engines q = map f (p_engines p)" and "p_mode q = p_mode p" and "\<not> p_switching q"
  shows "pool_ok ok q"
  using assms by (auto simp: pool_ok_def)

lemma pool_engine_ok: "pool_ok ok p \<Longrightarrow> e \<in> set (p_engines p) \<Longrightarrow> ok e"
  by (simp add: pool_ok_def)

lemma resume_engines:
  assumes "pool_ok ok p" and "snd (pool_resume ops p) = Inr ()"
  shows "p_engines (fst (pool_resume ops p)) = map (\<lambda>e. fst (op_resume ops e)) (p_engines p) \<and>
    (\<forall>e \<in> set (p_engines p). snd (op_resume ops e) = Inr ())"
  using assms run_loop_from_start[of "op_resume ops" "p\<lparr>p_pause_requested := False\<rparr>"]
  by (auto simp: pool_resume_def Let_def gather_returns split: if_splits)

lemma resume_sel:
  "p_mode (fst (pool_resume ops p)) = p_mode p"
  "p_switching (fst (pool_resume ops p)) = p_switching p"
  by (simp_all add: pool_resume_def Let_def)

text \<open>A switch that returns was either aborted at once by a requested pause, or complete.\<close>

lemma switch_engines:
  assumes "snd (pool_switch_model ops new p) = Inr ()"
  shows "(multi_instance p \<and> p_pause_requested p \<and>
      p_engines (fst (pool_switch_model ops new p)) = p_engines p) \<or>
    (p_engines (fst (pool_switch_model ops new p)) =
       map (\<lambda>e. fst (op_switch ops new e)) (p_engines p) \<and>
     (\<forall>e \<in> set (p_engines p). snd (op_switch ops new e) = Inr ()))"
proof (cases "multi_instance p \<and> \<not> p_pause_requested p")
  case True
  let ?q = "p\<lparr>p_switching := True\<rparr>"
  from True assms have "snd (run_loop (op_switch ops new) 0 ?q) = Inr ()"
    by (simp add: pool_switch_model_alt Let_def)
  from run_loop_from_start[OF this] True show ?thesis
    by (simp add: pool_switch_model_alt Let_def)
next
  case False
  with assms show ?thesis
    by (auto simp: pool_switch_model_alt Let_def run_loop_paused gather_returns)
qed

lemma switch_sel:
  "p_mode (fst (pool_switch_model ops new p)) = p_mode p"
  "\<not> p_switching (fst (pool_switch_model ops new p))"
  by (simp_all add: pool_switch_model_alt Let_def)

text \<open>The laws of the contract, operation by operation.\<close>

lemma pool_pause_ok: "pool_ok ok p \<Longrightarrow> pool_ok ok (fst (pool_pause ops u p))"
  by (rule pool_ok_map[of p "\<lambda>e. fst (op_pause ops u e)"])
     (use pool_engine_ok engine.ok_pause in \<open>auto simp: pool_pause_def pool_ok_def\<close>)

lemma pool_pause_returns: "pool_ok ok p \<Longrightarrow> snd (pool_pause ops u p) = Inr ()"
  using pool_engine_ok engine.pause_returns by (simp add: pool_pause_def gather_returns)

lemma pool_pause_state:
  assumes ok: "pool_ok ok p"
  shows "pool_state ops (fst (pool_pause ops u p)) =
    (if pool_state ops p = RUNNING then PAUSED else pool_state ops p)"
proof -
  note eok = pool_engine_ok[OF ok]
  show ?thesis
  proof (cases "pool_state ops p = RUNNING")
    case True
    with pool_state_iff[OF ok] pool_state_iff[OF pool_pause_ok[OF ok]] eok show ?thesis
      by (force simp: pool_pause_def engine.pause_state)
  next
    case False
    then have "map (op_state ops) (p_engines (fst (pool_pause ops u p))) =
        map (op_state ops) (p_engines p)"
      using pool_state_iff(1)[OF ok] eok by (auto simp: pool_pause_def engine.pause_state)
    with False show ?thesis by (simp add: pool_state_def)
  qed
qed

lemma pool_stop_ok: "pool_ok ok p \<Longrightarrow> pool_ok ok (fst (pool_stop ops p))"
  by (rule pool_ok_map[of p "\<lambda>e. fst (op_stop ops e)"])
     (use pool_engine_ok engine.ok_stop in \<open>auto simp: pool_stop_def pool_ok_def\<close>)

lemma pool_stop_state: "pool_ok ok p \<Longrightarrow> pool_state ops (fst (pool_stop ops p)) = STOPPED"
  using pool_state_iff(2)[OF pool_stop_ok] pool_engine_ok
  by (auto simp: pool_stop_def engine.stop_stopped)

lemma pool_resume_ok:
  assumes "pool_ok ok p" and "snd (pool_resume ops p) = Inr ()"
  shows "pool_ok ok (fst (pool_resume ops p))"
  by (rule pool_ok_map[OF assms(1), of "\<lambda>e. fst (op_resume ops e)"])
     (use resume_engines[OF assms] pool_engine_ok[OF assms(1)] engine.ok_resume assms(1) in
       \<open>simp_all add: resume_sel pool_ok_def\<close>)

lemma pool_resume_state:
  assumes ok: "pool_ok ok p" and ret: "snd (pool_resume ops p) = Inr ()"
  shows "pool_state ops (fst (pool_resume ops p)) =
    (if pool_state ops p = PAUSED then RUNNING else pool_state ops p)"
proof -
  note eok = pool_engine_ok[OF ok] and es = resume_engines[OF ok ret]
    and q = pool_resume_ok[OF ok ret]
  have state: "op_state ops (fst (op_resume ops e)) =
      (if op_state ops e = PAUSED then RUNNING else op_state ops e)"
    if "e \<in> set (p_engines p)" for e
    using that eok es by (simp add: engine.resume_state)
  show ?thesis
  proof (cases "\<exists>e \<in> set (p_engines p). op_state ops e \<noteq> STOPPED")
    case True
    then have "\<exists>e \<in> set (p_engines p). op_state ops (fst (op_resume ops e)) = RUNNING"
      using state eok engine.settled by fastforce
    then have "pool_state ops (fst (pool_resume ops p)) = RUNNING"
      using pool_state_iff(1)[OF q] es by auto
    with True pool_state_iff[OF ok] show ?thesis by auto
  next
    case False
    then have "map (op_state ops) (p_engines (fst (pool_resume ops p))) =
        map (op_state ops) (p_engines p)"
      using es state by auto
    with False pool_state_iff[OF ok] show ?thesis by (auto simp: pool_state_def)
  qed
qed

lemma pool_resume_model:
  assumes ok: "pool_ok ok p" and ret: "snd (pool_resume ops p) = Inr ()"
  shows "pool_current_model ops (fst (pool_resume ops p)) = pool_current_model ops p"
  using resume_engines[OF assms] pool_engine_ok[OF ok]
  by (cases "p_engines p") (auto simp: pool_current_model_def engine.resume_model)

lemma pool_start_ok:
  assumes "pool_ok ok p" and "pool_state ops p = STOPPED"
  shows "pool_ok ok (fst (pool_start ops m p))"
    and "p_engines (fst (pool_start ops m p)) = map (\<lambda>e. fst (op_start ops m e)) (p_engines p)"
  using assms pool_state_iff(2)[OF assms(1)] engine.ok_start
  by (auto simp: pool_start_def pool_ok_def length_Suc_conv)

lemma pool_start_running:
  assumes ok: "pool_ok ok p" and st: "pool_state ops p = STOPPED"
    and "snd (pool_start ops m p) = Inr ()"
  shows "pool_state ops (fst (pool_start ops m p)) = RUNNING"
proof -
  have "\<forall>e \<in> set (p_engines p). snd (op_start ops m e) = Inr ()"
    using assms by (auto simp: pool_start_def pool_ok_def gather_returns length_Suc_conv)
  with pool_state_iff(1)[OF pool_start_ok(1)[OF ok st, of m]] pool_start_ok(2)[OF ok st, of m]
    pool_state_iff(2)[OF ok] st pool_engine_ok[OF ok] engine.start_running pool_states[OF ok]
  show ?thesis by (cases "p_engines p") auto
qed

lemma pool_start_paused_ok:
  "pool_ok ok p \<Longrightarrow> pool_state ops p = STOPPED \<Longrightarrow> pool_ok ok (pool_start_paused ops m p)"
  by (rule pool_ok_map[of p "op_start_paused ops m"])
     (use pool_engine_ok pool_state_iff(2) engine.ok_start_paused in
       \<open>auto simp: pool_start_paused_def pool_ok_def\<close>)

lemma pool_start_paused_state:
  assumes ok: "pool_ok ok p"
  shows "op_state (pool_ops ops) (pool_start_paused ops m p) = PAUSED"
proof -
  have "\<forall>e \<in> set (p_engines p). op_state ops (op_start_paused ops m e) = PAUSED"
    using pool_engine_ok[OF ok] engine.start_paused by simp
  with ok show ?thesis
    by (auto simp: pool_ops_def pool_status_def pool_start_paused_def pool_ok_def
      first_engine_def aggregate_state_def Let_def list_all_iff list_ex_iff neq_Nil_conv
      length_Suc_conv)
qed

lemma pool_switch_ok:
  "pool_ok ok p \<Longrightarrow> snd (pool_switch_model ops m p) = Inr () \<Longrightarrow>
   pool_ok ok (fst (pool_switch_model ops m p))"
  using switch_engines[of m p] switch_sel[of m p] engine.ok_switch
  by (auto simp: pool_ok_def)

lemma pool_ops_sel [simp]:
  "op_start (pool_ops ops) = pool_start ops" "op_pause (pool_ops ops) = pool_pause ops"
  "op_resume (pool_ops ops) = pool_resume ops" "op_stop (pool_ops ops) = pool_stop ops"
  "op_switch (pool_ops ops) = pool_switch_model ops"
  "op_model (pool_ops ops) = pool_current_model ops"
  "op_start_paused (pool_ops ops) = pool_start_paused ops"
  by (simp_all add: pool_ops_def)

lemma pool_contract: "engine_contract (pool_ops ops) (pool_ok ok)"
  by unfold_locales
     (simp_all add: pool_op_state pool_available pool_pause_ok pool_pause_returns
       pool_pause_state pool_stop_ok pool_stop_state pool_resume_ok pool_resume_state
       pool_resume_model pool_start_ok pool_start_running pool_start_paused_ok
       pool_start_paused_state pool_switch_ok pool_state_iff(4)[simplified])

end

sublocale pool_of_engines \<subseteq> pool: engine_contract "pool_ops ops" "pool_ok ok"
  by (rule pool_contract)

text \<open>Over engines that install the model they are switched to, a switch is for all of them.\<close>

context inference_engine
begin

lemma pool_switch_uniform:
  assumes "pool_ok ok p" and "snd (pool_switch_model ops new p) = Inr ()"
    and "\<not> p_pause_requested p" and "e \<in> set (p_engines (fst (pool_switch_model ops new p)))"
  shows "op_model ops e = new"
proof -
  have "pool_of_engines ops ok" by (rule pool_of_engines.intro) (rule engine_contract_axioms)
  from pool_of_engines.switch_engines[OF this assms(2)] assms(3,4)
  obtain d where "d \<in> set (p_engines p)" "e = fst (op_switch ops new d)"
    "snd (op_switch ops new d) = Inr ()" by auto
  with assms(1) switch_model show ?thesis by (simp add: pool_ok_def)
qed

end

interpretation mock_pool: pool_of_engines mock_ops mock_settled
  by unfold_locales

interpretation vllm_pool: pool_of_engines "vllm_ops w" vllm_settled for w
  by unfold_locales

end
