(* ===== verification/Pool_Loop.thy ===== *)
theory Pool_Loop
  imports Pool_Life
begin

text \<open>
  Several calls of the pool in flight on one event loop.  A loop of \<open>resume\<close> or
  \<open>switch_model\<close> gives way between two engines, so a yield request or a pause may come in
  there; one engine call is one step (what happens inside it is the matter of
  \<open>Engine\<close>).
\<close>

section \<open>The machine\<close>

datatype ptask =
  TIdle | TResume nat | TSwitch string nat | TReturned | TRaised py_exn

datatype pcall =
  PcPause yield_urgency | PcResume | PcStop | PcSwitch string | PcRequestPause

datatype plabel = PCall nat pcall | PRun nat

record 'e pool_sys =
  ps_pool :: "'e pool"
  ps_tasks :: "nat \<Rightarrow> ptask"

fun ended :: "unit result \<Rightarrow> ptask" where
  "ended (Inl x) = TRaised x"
| "ended (Inr u) = TReturned"

definition set_task :: "nat \<Rightarrow> ptask \<Rightarrow> 'e pool \<Rightarrow> 'e pool_sys \<Rightarrow> 'e pool_sys" where
  "set_task i t p s = s\<lparr>ps_pool := p, ps_tasks := (ps_tasks s)(i := t)\<rparr>"

text \<open>A call runs up to its first suspension point; \<open>request_pause\<close> is not a coroutine.\<close>

fun pool_call :: "'e engine_ops \<Rightarrow> nat \<Rightarrow> pcall \<Rightarrow> 'e pool_sys \<Rightarrow> 'e pool_sys" where
  "pool_call ops i PcRequestPause s = s\<lparr>ps_pool := request_pause (ps_pool s)\<rparr>"
| "pool_call ops i (PcPause u) s =
     (let (p, r) = pool_pause ops u (ps_pool s) in set_task i (ended r) p s)"
| "pool_call ops i PcStop s =
     (let (p, r) = pool_stop ops (ps_pool s) in set_task i (ended r) p s)"
| "pool_call ops i PcResume s =
     (let p = (ps_pool s)\<lparr>p_pause_requested := False\<rparr> in
      if multi_instance p then set_task i (TResume 0) p s
      else (let (q, r) = gather (op_resume ops) p in set_task i (ended r) q s))"
| "pool_call ops i (PcSwitch new) s =
     set_task i (TSwitch new 0) ((ps_pool s)\<lparr>p_switching := True\<rparr>) s"

text \<open>One turn of a loop, or the whole fan-out of a tensor-parallel switch.\<close>

definition switch_turn :: "'e engine_ops \<Rightarrow> string \<Rightarrow> nat \<Rightarrow> 'e pool \<Rightarrow> 'e pool \<times> unit result option" where
  "switch_turn ops new n p =
     (let (q, r) = (if multi_instance p then loop_turn (op_switch ops new) n p
                    else (let (q, r) = gather (op_switch ops new) p in (q, Some r))) in
      (if r = None then q else q\<lparr>p_switching := False\<rparr>, r))"

definition pool_run :: "'e engine_ops \<Rightarrow> nat \<Rightarrow> 'e pool_sys \<Rightarrow> 'e pool_sys option" where
  "pool_run ops i s =
     (case ps_tasks s i of
        TResume n \<Rightarrow>
          (let (p, r) = loop_turn (op_resume ops) n (ps_pool s) in
           Some (set_task i (case r of None \<Rightarrow> TResume (n + 1) | Some x \<Rightarrow> ended x) p s))
      | TSwitch new n \<Rightarrow>
          (let (p, r) = switch_turn ops new n (ps_pool s) in
           Some (set_task i (case r of None \<Rightarrow> TSwitch new (n + 1) | Some x \<Rightarrow> ended x) p s))
      | _ \<Rightarrow> None)"

fun pool_fire :: "'e engine_ops \<Rightarrow> plabel \<Rightarrow> 'e pool_sys \<Rightarrow> 'e pool_sys option" where
  "pool_fire ops (PCall i c) s =
     (if c = PcRequestPause \<or> ps_tasks s i = TIdle then Some (pool_call ops i c s) else None)"
| "pool_fire ops (PRun i) s = pool_run ops i s"

inductive pool_reach ::
  "'e engine_ops \<Rightarrow> ('e pool_sys \<Rightarrow> plabel \<Rightarrow> bool) \<Rightarrow> 'e pool_sys \<Rightarrow> 'e pool_sys \<Rightarrow> bool"
  for ops :: "'e engine_ops" and env :: "'e pool_sys \<Rightarrow> plabel \<Rightarrow> bool" and s0 :: "'e pool_sys" where
  pool_init: "pool_reach ops env s0 s0"
| pool_step: "pool_reach ops env s0 s \<Longrightarrow> env s l \<Longrightarrow> pool_fire ops l s = Some t \<Longrightarrow>
    pool_reach ops env s0 t"

definition pool_sys_of :: "'e pool \<Rightarrow> 'e pool_sys" where
  "pool_sys_of p = \<lparr>ps_pool = p, ps_tasks = (\<lambda>_. TIdle)\<rparr>"

fun pool_exec :: "'e engine_ops \<Rightarrow> plabel list \<Rightarrow> 'e pool_sys \<Rightarrow> 'e pool_sys option" where
  "pool_exec ops [] s = Some s"
| "pool_exec ops (l # ls) s =
     (case pool_fire ops l s of None \<Rightarrow> None | Some t \<Rightarrow> pool_exec ops ls t)"

lemma pool_exec_reach:
  "pool_exec ops ls s = Some t \<Longrightarrow> \<forall>s. \<forall>l \<in> set ls. env s l \<Longrightarrow> pool_reach ops env s0 s \<Longrightarrow>
   pool_reach ops env s0 t"
proof (induction ls arbitrary: s)
  case (Cons l ls)
  then obtain u where u: "pool_fire ops l s = Some u" "pool_exec ops ls u = Some t"
    by (auto split: option.splits)
  with Cons.prems have "pool_reach ops env s0 u" by (auto intro: pool_step)
  with Cons u show ?case by auto
qed simp

lemma set_task_sel [simp]:
  "ps_pool (set_task i t p s) = p" "ps_tasks (set_task i t p s) = (ps_tasks s)(i := t)"
  by (simp_all add: set_task_def)

section \<open>A yield request holds\<close>

text \<open>The environment that, once the pause is requested, sends no new resume.\<close>

definition no_resume :: "'e pool_sys \<Rightarrow> plabel \<Rightarrow> bool" where
  "no_resume s l \<longleftrightarrow> (\<forall>i. l \<noteq> PCall i PcResume)"

text \<open>No engine of \<open>q\<close> is loaded that \<open>p\<close> did not already have running.\<close>

definition no_new_load :: "'e engine_ops \<Rightarrow> 'e pool \<Rightarrow> 'e pool \<Rightarrow> bool" where
  "no_new_load ops p q \<longleftrightarrow>
     list_all2 (\<lambda>e f. op_state ops f = RUNNING \<longrightarrow> op_state ops e = RUNNING)
       (p_engines p) (p_engines q)"

lemma no_new_load_refl [simp]: "p_engines q = p_engines p \<Longrightarrow> no_new_load ops p q"
  by (simp add: no_new_load_def list_all2_conv_all_nth)

lemma no_new_load_trans:
  "no_new_load ops p q \<Longrightarrow> no_new_load ops q r \<Longrightarrow> no_new_load ops p r"
  unfolding no_new_load_def list_all2_conv_all_nth by auto

lemma no_new_load_map:
  "p_engines q = map f (p_engines p) \<Longrightarrow>
   (\<And>e. e \<in> set (p_engines p) \<Longrightarrow> op_state ops (f e) = RUNNING \<Longrightarrow> op_state ops e = RUNNING) \<Longrightarrow>
   no_new_load ops p q"
  by (simp add: no_new_load_def list_all2_conv_all_nth)

definition yield_inv :: "('e \<Rightarrow> bool) \<Rightarrow> 'e pool \<Rightarrow> bool" where
  "yield_inv ok p \<longleftrightarrow>
     multi_instance p \<and> p_pause_requested p \<and> (\<forall>e \<in> set (p_engines p). ok e)"

context pool_of_engines
begin

lemma gather_pause_yield:
  assumes "\<forall>e \<in> set (p_engines p). ok e"
  shows "(\<forall>e \<in> set (p_engines (fst (gather (op_pause ops u) p))). ok e) \<and>
    no_new_load ops p (fst (gather (op_pause ops u) p))"
proof
  show "\<forall>e \<in> set (p_engines (fst (gather (op_pause ops u) p))). ok e"
    using assms engine.ok_pause by simp
  show "no_new_load ops p (fst (gather (op_pause ops u) p))"
    by (rule no_new_load_map[where f = "\<lambda>e. fst (op_pause ops u e)"])
       (use assms in \<open>auto simp: engine.pause_state split: if_splits\<close>)
qed

lemma gather_stop_yield:
  assumes "\<forall>e \<in> set (p_engines p). ok e"
  shows "(\<forall>e \<in> set (p_engines (fst (gather (op_stop ops) p))). ok e) \<and>
    no_new_load ops p (fst (gather (op_stop ops) p))"
proof
  show "\<forall>e \<in> set (p_engines (fst (gather (op_stop ops) p))). ok e"
    using assms engine.ok_stop by simp
  show "no_new_load ops p (fst (gather (op_stop ops) p))"
    by (rule no_new_load_map[where f = "\<lambda>e. fst (op_stop ops e)"])
       (use assms in \<open>auto simp: engine.stop_stopped\<close>)
qed

lemma yield_step:
  assumes "yield_inv ok (ps_pool s)" and "no_resume s l" and "pool_fire ops l s = Some t"
  shows "yield_inv ok (ps_pool t) \<and> no_new_load ops (ps_pool s) (ps_pool t)"
proof (cases l)
  case (PCall i c)
  have oks: "\<forall>e \<in> set (p_engines (ps_pool s)). ok e" using assms(1) by (simp add: yield_inv_def)
  show ?thesis
  proof (cases c)
    case (PcPause u)
    with PCall assms gather_pause_yield[of "(ps_pool s)\<lparr>p_pause_requested := True\<rparr>" u] oks
    show ?thesis
      by (auto simp: pool_pause_def yield_inv_def no_new_load_def split: if_splits prod.splits
          dest!: arg_cong[of "gather _ _" _ fst])
  next
    case PcStop
    with PCall assms gather_stop_yield[of "ps_pool s"] oks show ?thesis
      by (auto simp: pool_stop_def yield_inv_def no_new_load_def split: if_splits prod.splits
          dest!: arg_cong[of "gather _ _" _ fst])
  next
    case PcResume
    with PCall assms show ?thesis by (simp add: no_resume_def)
  next
    case (PcSwitch new)
    with PCall assms show ?thesis by (auto simp: yield_inv_def split: if_splits)
  next
    case PcRequestPause
    with PCall assms show ?thesis by (auto simp: yield_inv_def request_pause_def)
  qed
next
  case (PRun i)
  with assms show ?thesis
    by (auto simp: pool_run_def yield_inv_def loop_turn_def switch_turn_def split: ptask.splits)
qed

text \<open>From the request on, no step loads an engine until \<open>resume\<close> is called again.\<close>

lemma yield_holds:
  assumes "pool_reach ops no_resume s t" and "yield_inv ok (ps_pool s)"
  shows "yield_inv ok (ps_pool t) \<and> no_new_load ops (ps_pool s) (ps_pool t)"
  using assms(1)
proof induction
  case pool_init
  with assms(2) show ?case by simp
next
  case (pool_step t l u)
  then show ?case using yield_step no_new_load_trans by blast
qed

end

text \<open>A loop in flight ends at its next turn without touching an engine.\<close>

lemma yield_ends_loop:
  assumes "p_pause_requested (ps_pool s)" and "ps_tasks s i = TResume n"
  shows "pool_run ops i s = Some (set_task i TReturned (ps_pool s) s)"
  using assms by (simp add: pool_run_def loop_turn_def)

section \<open>The switching flag\<close>

definition switching_tasks :: "'e pool_sys \<Rightarrow> nat set" where
  "switching_tasks s = {i. \<exists>new n. ps_tasks s i = TSwitch new n}"

text \<open>The API server starts a switch only under its own lock: one at a time.\<close>

definition one_switch :: "'e pool_sys \<Rightarrow> plabel \<Rightarrow> bool" where
  "one_switch s l \<longleftrightarrow> (\<forall>i new. l = PCall i (PcSwitch new) \<longrightarrow> switching_tasks s = {})"

definition switch_inv :: "'e pool_sys \<Rightarrow> bool" where
  "switch_inv s \<longleftrightarrow>
     (if p_switching (ps_pool s) then \<exists>i. switching_tasks s = {i} else switching_tasks s = {})"

lemma switching_tasks_set_task:
  "switching_tasks (set_task i t p s) =
     (if \<exists>new n. t = TSwitch new n then insert i (switching_tasks s) else switching_tasks s - {i})"
  by (auto simp: switching_tasks_def)

lemma switching_tasks_other:
  "i \<notin> switching_tasks s \<Longrightarrow> \<forall>new n. t \<noteq> TSwitch new n \<Longrightarrow>
   switching_tasks (set_task i t p s) = switching_tasks s"
  by (auto simp: switching_tasks_def)

lemma switching_tasks_idle: "ps_tasks s i = TIdle \<Longrightarrow> i \<notin> switching_tasks s"
  by (simp add: switching_tasks_def)

lemma ended_not_switch [simp]: "ended r \<noteq> TSwitch new n" "TSwitch new n \<noteq> ended r"
  by (cases r; simp)+

lemma switch_turn_flag:
  assumes "switch_turn ops new n p = (q, r)"
  shows "p_switching q = (if r = None then p_switching p else False)"
  using assms
  by (auto simp: switch_turn_def split: prod.splits if_splits
      dest!: arg_cong[of "loop_turn _ _ _" _ fst] arg_cong[of "gather _ _" _ fst]
      arg_cong[of _ _ p_switching])

lemma switch_call_step:
  assumes inv: "switch_inv s" and one: "one_switch s (PCall i c)"
    and fire: "pool_fire ops (PCall i c) s = Some t"
  shows "switch_inv t"
proof (cases "c = PcRequestPause")
  case True
  with assms show ?thesis
    by (auto simp: switch_inv_def request_pause_def switching_tasks_def)
next
  case False
  with fire have idle: "ps_tasks s i = TIdle" by (auto split: if_splits)
  note out = switching_tasks_idle[OF idle]
  show ?thesis
  proof (cases "\<exists>new. c = PcSwitch new")
    case True
    with assms show ?thesis
      by (auto simp: switch_inv_def switching_tasks_set_task one_switch_def split: if_splits)
  next
    case other: False
    with False assms show ?thesis
      by (cases c)
         (auto simp: switch_inv_def switching_tasks_other[OF out] pool_pause_def
          pool_stop_def gather_def Let_def split: if_splits)
  qed
qed

lemma switch_run_step:
  assumes inv: "switch_inv s" and run: "pool_run ops i s = Some t"
  shows "switch_inv t"
proof (cases "ps_tasks s i")
  case (TResume n)
  then have "i \<notin> switching_tasks s" by (simp add: switching_tasks_def)
  note out = switching_tasks_other[OF this]
  obtain p r where turn: "loop_turn (op_resume ops) n (ps_pool s) = (p, r)"
    by (cases "loop_turn (op_resume ops) n (ps_pool s)")
  have "p_switching p = p_switching (ps_pool s)"
    using loop_turn_sel(2)[of "op_resume ops" n "ps_pool s"] turn by simp
  moreover from TResume run turn have "t = set_task i
      (case r of None \<Rightarrow> TResume (n + 1) | Some x \<Rightarrow> ended x) p s"
    by (simp add: pool_run_def)
  ultimately show ?thesis
    using inv by (cases r) (simp_all add: switch_inv_def out)
next
  case (TSwitch new n)
  then have i: "i \<in> switching_tasks s" by (auto simp: switching_tasks_def)
  obtain q r where turn: "switch_turn ops new n (ps_pool s) = (q, r)"
    by (cases "switch_turn ops new n (ps_pool s)")
  note flag = switch_turn_flag[OF turn]
  from i inv have one: "p_switching (ps_pool s)" "switching_tasks s = {i}"
    by (auto simp: switch_inv_def split: if_splits)
  from TSwitch run turn have t: "t = set_task i
      (case r of None \<Rightarrow> TSwitch new (n + 1) | Some x \<Rightarrow> ended x) q s"
    by (simp add: pool_run_def)
  show ?thesis
    using one flag
    by (cases r) (auto simp: t switch_inv_def switching_tasks_set_task)
qed (use run in \<open>simp_all add: pool_run_def\<close>)

lemma switch_step:
  assumes "switch_inv s" and "one_switch s l" and "pool_fire ops l s = Some t"
  shows "switch_inv t"
  using assms switch_call_step switch_run_step by (cases l) auto

lemma switch_flag:
  assumes "pool_reach ops one_switch s t" and "switch_inv s"
  shows "switch_inv t"
  using assms(1) by induction (auto intro: assms(2) switch_step)

lemma switch_inv_start: "\<not> p_switching p \<Longrightarrow> switch_inv (pool_sys_of p)"
  by (simp add: switch_inv_def switching_tasks_def pool_sys_of_def)

text \<open>While the flag is set the pool never reports that it runs.\<close>

lemma switching_status:
  "p_switching p \<Longrightarrow> pool_status ops p = Inr st \<Longrightarrow> es_state st \<noteq> RUNNING"
  by (auto simp: pool_status_def Let_def bind_result_eq_Inr split: if_splits
      dest: arg_cong[where f = es_state])

end
