(* ===== verification/Pool_Props.thy ===== *)
theory Pool_Props
  imports Pool_Loop Engine_Props
begin

text \<open>
  The properties of the pool: the contract it keeps, what a yield request and a switch do to
  calls in flight, and how requests are routed.
\<close>

section \<open>The pool\<close>

text \<open>
  C15. The pool is an engine to its callers: over engines that keep the contract it keeps it
  too.  After a pause nothing of it is available, whatever the mode and the urgency, and a
  resume that returns makes a paused pool serve again.
\<close>

theorem pool_pause_and_resume:
  assumes "pool_ok vllm_settled p"
  shows "\<not> op_available (pool_ops (vllm_ops w)) (fst (pool_pause (vllm_ops w) u p)) \<and>
    (op_state (pool_ops (vllm_ops w)) p = PAUSED \<and> snd (pool_resume (vllm_ops w) p) = Inr () \<longrightarrow>
       op_available (pool_ops (vllm_ops w)) (fst (pool_resume (vllm_ops w) p)))"
  using vllm_pool.pool.pause_unavailable[OF assms, of w u]
    vllm_pool.pool.resume_state[OF assms, of w] vllm_pool.pool.ok_resume[OF assms, of w]
    vllm_pool.pool.available
  by (auto simp: pool_ops_def)

definition two_engines :: "vllm pool" where
  "two_engines = pool_init ''multi_instance''
     [start_paused_engine ''m'' vllm0, start_paused_engine ''m'' vllm0] ''round_robin''"

lemma two_engines_ok: "pool_ok vllm_settled two_engines"
  by (simp add: pool_ok_def two_engines_def pool_init_def settled_boot_paused)

theorem pool_pause_and_resume_witness:
  "\<not> op_available (pool_ops (vllm_ops flaky_world))
     (fst (pool_pause (vllm_ops flaky_world) NORMAL two_engines))"
  using pool_pause_and_resume[OF two_engines_ok] by blast

text \<open>
  C16. A yield request holds: from the moment it is signalled to a multi-instance pool until
  the next call of \<open>resume\<close>, no resume or switch in flight loads another engine, however the
  calls are interleaved.
\<close>

theorem yield_request_holds:
  assumes "pool_reach (vllm_ops w) no_resume s t" and "yield_inv vllm_settled (ps_pool s)"
  shows "\<forall>i < length (p_engines (ps_pool s)).
    e_state (p_engines (ps_pool t) ! i) = RUNNING \<longrightarrow>
    e_state (p_engines (ps_pool s) ! i) = RUNNING"
  using vllm_pool.yield_holds[OF assms]
  by (auto simp: no_new_load_def list_all2_conv_all_nth vllm_ops_def status_def)

text \<open>A resume of the two engines is in flight when the yield request comes.\<close>

definition yielded_sys :: "vllm pool_sys" where
  "yielded_sys =
     \<lparr>ps_pool = request_pause two_engines, ps_tasks = (\<lambda>_. TIdle)(0 := TResume 0)\<rparr>"

theorem yield_request_holds_witness:
  "\<exists>t. pool_exec (vllm_ops flaky_world) [PRun 0] yielded_sys = Some t \<and>
     ps_tasks t 0 = TReturned \<and>
     e_state (p_engines (ps_pool t) ! 1) \<noteq> RUNNING"
proof -
  let ?t = "set_task 0 TReturned (ps_pool yielded_sys) yielded_sys"
  have run: "pool_exec (vllm_ops flaky_world) [PRun 0] yielded_sys = Some ?t"
    by (simp add: yield_ends_loop yielded_sys_def request_pause_def)
  then have "pool_reach (vllm_ops flaky_world) no_resume yielded_sys ?t"
    by (rule pool_exec_reach) (simp_all add: no_resume_def pool_init)
  moreover have "yield_inv vllm_settled (ps_pool yielded_sys)"
    using settled_boot_paused
    by (simp add: yield_inv_def yielded_sys_def request_pause_def two_engines_def pool_init_def)
  ultimately have "\<forall>i < length (p_engines (ps_pool yielded_sys)).
      e_state (p_engines (ps_pool ?t) ! i) = RUNNING \<longrightarrow>
      e_state (p_engines (ps_pool yielded_sys) ! i) = RUNNING"
    by (rule yield_request_holds)
  then have "e_state (p_engines (ps_pool ?t) ! 1) \<noteq> RUNNING"
    by (auto simp: yielded_sys_def request_pause_def two_engines_def pool_init_def
      start_paused_engine_def)
  with run show ?thesis by simp
qed

text \<open>
  C17. During a model switch the pool never reports RUNNING: with one switch in flight at a
  time the flag \<open>_switching\<close> is up exactly while it runs, and while it is up the status is
  never RUNNING, even when engines already serve the new model.
\<close>

theorem switching_pool_not_running:
  assumes "pool_reach ops one_switch (pool_sys_of p) s" and "\<not> p_switching p"
    and "ps_tasks s i = TSwitch new n" and "pool_status ops (ps_pool s) = Inr st"
  shows "es_state st \<noteq> RUNNING"
proof -
  have "switch_inv s" using switch_flag[OF assms(1)] switch_inv_start[OF assms(2)] by blast
  with assms(3) have "p_switching (ps_pool s)"
    by (auto simp: switch_inv_def switching_tasks_def split: if_splits)
  with assms(4) show ?thesis using switching_status by blast
qed

definition mock_pair :: "mock pool" where
  "mock_pair = pool_init ''multi_instance''
     [fst (mock_start ''m'' (mock_init 0 0)), fst (mock_start ''m'' (mock_init 0 1))] ''round_robin''"

definition mid_switch :: "mock pool_sys" where
  "mid_switch = the (pool_exec mock_ops [PCall 0 (PcSwitch ''n''), PRun 0] (pool_sys_of mock_pair))"

lemmas mock_pair_defs =
  mock_pair_def pool_init_def mock_start_def mock_init_def mock_set_def pool_sys_of_def set_task_def
  pool_run_def switch_turn_def loop_turn_def mock_ops_def mock_switch_model_def mock_pause_def
  mock_resume_def

lemma mid_switch_runs:
  "pool_exec mock_ops [PCall 0 (PcSwitch ''n''), PRun 0] (pool_sys_of mock_pair) = Some mid_switch"
  "ps_tasks mid_switch 0 = TSwitch ''n'' 1" "\<not> p_switching mock_pair"
  unfolding mid_switch_def by (simp_all add: mock_pair_defs)

theorem switching_pool_not_running_witness:
  "\<exists>st. pool_status mock_ops (ps_pool mid_switch) = Inr st \<and> es_state st \<noteq> RUNNING"
proof -
  let ?s0 = "pool_sys_of mock_pair" and ?l = "PCall 0 (PcSwitch ''n'')"
  let ?s1 = "pool_call mock_ops 0 (PcSwitch ''n'') ?s0"
  have "one_switch ?s0 ?l" "pool_fire mock_ops ?l ?s0 = Some ?s1"
    by (simp_all add: one_switch_def switching_tasks_def pool_sys_of_def)
  then have "pool_reach mock_ops one_switch ?s0 ?s1" by (blast intro: pool_init pool_step)
  moreover have "one_switch ?s1 (PRun 0)" by (simp add: one_switch_def)
  moreover have "pool_fire mock_ops (PRun 0) ?s1 = Some mid_switch"
    using mid_switch_runs(1) by (simp add: pool_sys_of_def split: option.splits)
  ultimately have "pool_reach mock_ops one_switch ?s0 mid_switch" by (rule pool_step)
  note reach = this
  obtain st where st: "pool_status mock_ops (ps_pool mid_switch) = Inr st"
    by (auto simp: pool_status_def mid_switch_def mock_pair_defs)
  with switching_pool_not_running[OF reach mid_switch_runs(3,2)] show ?thesis by blast
qed

definition busy_pair :: "mock pool" where
  "busy_pair = mock_pair\<lparr>p_lb_strategy := ''least_busy'',
     p_engines := map (\<lambda>(e, n). e\<lparr>m_active_requests := n\<rparr>) (zip (p_engines mock_pair) [5, 3])\<rparr>"

lemmas busy_pair_defs =
  busy_pair_def mock_pair_defs available_engines_def mock_is_available_def engine_load_def
  mock_status_def

text \<open>
  C18. A request is routed to an engine of the pool that is available at that moment, under
  least busy and without a session to one with the fewest active requests, and the pick raises
  exactly when no engine is available.  Under round robin, over engines that do not change,
  as many picks as there are available engines visit each of them once, in the order of the
  pool, from where the counter stands.
\<close>

theorem pick_returns_available:
  "(case pick_engine ops now key p of
      (q, Inr i) \<Rightarrow> i < length (p_engines p) \<and> op_available ops (p_engines p ! i) \<and>
        p_engines q = p_engines p \<and>
        (p_lb_strategy p = ''least_busy'' \<and> session_of key = None \<longrightarrow>
          (\<forall>j \<in> set (available_engines ops p). engine_load ops p i \<le> engine_load ops p j))
    | (q, Inl x) \<Rightarrow> x = RuntimeError ''No engines available for inference'' \<and>
        (\<forall>e \<in> set (p_engines p). \<not> op_available ops e)) \<and>
   (let av = available_engines ops p in
    p_lb_strategy p \<noteq> ''least_busy'' \<and> av \<noteq> [] \<longrightarrow>
    picks ops now (length av) p = map Inr (rotate (p_rr_index p) av))"
proof (intro conjI)
  show "let av = available_engines ops p in p_lb_strategy p \<noteq> ''least_busy'' \<and> av \<noteq> [] \<longrightarrow>
      picks ops now (length av) p = map Inr (rotate (p_rr_index p) av)"
    using round_robin_rotates[of p ops _ now] by (simp add: Let_def)
  show "case pick_engine ops now key p of
      (q, Inr i) \<Rightarrow> i < length (p_engines p) \<and> op_available ops (p_engines p ! i) \<and>
        p_engines q = p_engines p \<and>
        (p_lb_strategy p = ''least_busy'' \<and> session_of key = None \<longrightarrow>
          (\<forall>j \<in> set (available_engines ops p). engine_load ops p i \<le> engine_load ops p j))
    | (q, Inl x) \<Rightarrow> x = RuntimeError ''No engines available for inference'' \<and>
        (\<forall>e \<in> set (p_engines p). \<not> op_available ops e)"
proof (cases "pick_engine ops now key p")
  case (Pair q r)
  show ?thesis
  proof (cases r)
    case (Inl x)
    with Pair pick_raises[of ops now key p] pick_raises_nothing_else[of ops now key p] show ?thesis
      by simp
  next
    case (Inr i)
    note pick = Pair[unfolded Inr]
    have "engine_load ops p i \<le> engine_load ops p j"
      if "p_lb_strategy p = ''least_busy''" "session_of key = None" "j \<in> set (available_engines ops p)" for j
      using least_busy_pick[OF that(1,2) pick that(3)] by simp
    with pick pick_available[OF pick] show ?thesis by simp
  qed
qed
qed

lemma mock_pair_available: "available_engines mock_ops mock_pair = [0, 1]"
  by (simp add: available_engines_def mock_pair_defs mock_is_available_def)

theorem pick_returns_available_witness:
  "(\<exists>q i. pick_engine mock_ops 0 None busy_pair = (q, Inr i) \<and> i < 2 \<and>
     engine_load mock_ops busy_pair i \<le> 3) \<and> picks mock_ops 0 2 mock_pair = [Inr 0, Inr 1]"
proof -
  have "picks mock_ops 0 2 mock_pair = [Inr 0, Inr 1]"
    using pick_returns_available[where p = mock_pair and ops = mock_ops and key = None and now = 0]
      mock_pair_available
    by (simp add: mock_pair_defs numeral_2_eq_2)
  note rr = this
  have up: "\<exists>e \<in> set (p_engines busy_pair). op_available mock_ops e"
    and pair: "length (p_engines busy_pair) = 2" "p_lb_strategy busy_pair = ''least_busy''"
      "session_of None = None" "1 \<in> set (available_engines mock_ops busy_pair)"
      "engine_load mock_ops busy_pair 1 = 3"
    by (simp_all add: busy_pair_defs)
  note pick = pick_returns_available[where p = busy_pair and ops = mock_ops and key = None and now = 0]
  obtain q i where qi: "pick_engine mock_ops 0 None busy_pair = (q, Inr i)"
    using pick up by (auto split: prod.splits sum.splits)
  with pick pair have "i < 2" "engine_load mock_ops busy_pair i \<le> engine_load mock_ops busy_pair 1"
    by auto
  with qi pair(5) rr show ?thesis by auto
qed

text \<open>
  C21. Session affinity: a pick with a session pins it, and within its time to live the same
  session goes back to that engine while it is available and at most two requests busier than
  the least busy one, whatever happened to the load meanwhile.
\<close>

theorem session_returns_to_its_engine:
  assumes "distinct (map fst (p_sessions p))" and "session_of key = Some k"
    and "pick_engine ops now key p = (q, Inr i)"
    and "p_sessions r = p_sessions q" and "later < now + session_ttl"
    and "i \<in> set (available_engines ops r)"
    and "\<forall>j \<in> set (available_engines ops r).
      engine_load ops r i \<le> engine_load ops r j + affinity_slack"
  shows "snd (pick_engine ops later key r) = Inr i"
proof -
  have "map_of (p_sessions r) k = Some (i, now + session_ttl)"
    using pick_pins[OF assms(1-3)] assms(4) by simp
  with affinity[OF this assms(5,2,6,7)] show ?thesis by simp
qed

theorem session_returns_to_its_engine_witness:
  "snd (pick_engine mock_ops 599 (Some ''s'')
     (fst (pick_engine mock_ops 0 (Some ''s'') busy_pair))) = Inr 1"
proof -
  let ?q = "busy_pair\<lparr>p_sessions := [(''s'', 1, 600)]\<rparr>"
  have pick: "pick_engine mock_ops 0 (Some ''s'') busy_pair = (?q, Inr 1)"
    by (simp add: pick_engine_def pinned_engine_def balance_def pin_session_def
      evict_sessions_def session_bound_def session_ttl_def busy_pair_defs)
  have "snd (pick_engine mock_ops 599 (Some ''s'') ?q) = Inr 1"
    by (rule session_returns_to_its_engine[OF _ _ pick])
       (auto simp: session_ttl_def affinity_slack_def busy_pair_defs nth_Cons split: nat.splits)
  with pick show ?thesis by simp
qed

end
