(* ===== verification/Receipt.thy ===== *)
theory Receipt
  imports Prelude Complex_Main
begin

text \<open>
  Signed receipts of \<open>inference/receipt.py\<close>: the canonical payload, the receipt, and the
  worker's signing key.

  Strings that reach the payload are lists of code points (a request may hold any of them);
  the payload itself is ASCII, so its characters are its UTF-8 bytes.  The ed25519 library is
  a parameter.
\<close>

section \<open>\<open>json.dumps\<close> of a string\<close>

type_synonym code_points = "nat list"

definition surrogate :: "nat \<Rightarrow> bool" where
  "surrogate c \<longleftrightarrow> 0xD800 \<le> c \<and> c \<le> 0xDFFF"

text \<open>A Unicode scalar value: what valid UTF-8 input decodes to.\<close>

definition scalar :: "nat \<Rightarrow> bool" where
  "scalar c \<longleftrightarrow> c < 0x110000 \<and> \<not> surrogate c"

definition backslash :: char where "backslash = CHR 0x5C"
definition quote :: char where "quote = CHR 0x22"

definition hex_digit :: "nat \<Rightarrow> char" where
  "hex_digit d = ''0123456789abcdef'' ! d"

definition hex4 :: "nat \<Rightarrow> string" where
  "hex4 v = map hex_digit [v div 4096 mod 16, v div 256 mod 16, v div 16 mod 16, v mod 16]"

definition u_escape :: "nat \<Rightarrow> string" where
  "u_escape v = [backslash, CHR ''u''] @ hex4 v"

text \<open>
  The default encoder escapes the quote, the backslash and everything outside the printable
  ASCII range; beyond the basic plane it writes a surrogate pair.
\<close>

definition short_escape :: "nat \<Rightarrow> char option" where
  "short_escape c =
     (if c = 34 then Some quote else if c = 92 then Some backslash
      else if c = 10 then Some CHR ''n'' else if c = 13 then Some CHR ''r''
      else if c = 9 then Some CHR ''t'' else if c = 12 then Some CHR ''f''
      else if c = 8 then Some CHR ''b'' else None)"

definition json_escape :: "nat \<Rightarrow> string" where
  "json_escape c =
     (case short_escape c of
        Some x \<Rightarrow> [backslash, x]
      | None \<Rightarrow>
          if 32 \<le> c \<and> c \<le> 126 then [char_of c]
          else if c < 0x10000 then u_escape c
          else u_escape (0xD800 + (c - 0x10000) div 1024) @
               u_escape (0xDC00 + (c - 0x10000) mod 1024))"

definition json_dumps :: "code_points \<Rightarrow> string" where
  "json_dumps s = [quote] @ concat (map json_escape s) @ [quote]"

section \<open>The canonical payload\<close>

record receipt_fields =
  rf_request_id :: code_points
  rf_model :: code_points
  rf_request_sha256 :: code_points
  rf_response_sha256 :: code_points
  rf_prompt_tokens :: int
  rf_completion_tokens :: int
  rf_cached_tokens :: int
  rf_ts :: int
  rf_pubkey :: code_points

definition json_key :: "string \<Rightarrow> string" where
  "json_key k = [quote] @ k @ [quote] @ '':''"

definition canonical_payload :: "receipt_fields \<Rightarrow> string" where
  "canonical_payload r =
     ''{'' @
     json_key ''cached_tokens'' @ str_int (rf_cached_tokens r) @ '','' @
     json_key ''completion_tokens'' @ str_int (rf_completion_tokens r) @ '','' @
     json_key ''model'' @ json_dumps (rf_model r) @ '','' @
     json_key ''prompt_tokens'' @ str_int (rf_prompt_tokens r) @ '','' @
     json_key ''pubkey'' @ json_dumps (rf_pubkey r) @ '','' @
     json_key ''request_id'' @ json_dumps (rf_request_id r) @ '','' @
     json_key ''request_sha256'' @ json_dumps (rf_request_sha256 r) @ '','' @
     json_key ''response_sha256'' @ json_dumps (rf_response_sha256 r) @ '','' @
     json_key ''ts'' @ str_int (rf_ts r) @ '','' @
     json_key ''v'' @ ''1'' @
     ''}''"

subsection \<open>Escapes are a prefix code on scalar values\<close>

lemma hex_digit_inj: "d < 16 \<Longrightarrow> e < 16 \<Longrightarrow> hex_digit d = hex_digit e \<Longrightarrow> d = e"
  unfolding hex_digit_def by (subst (asm) nth_eq_iff_index_eq) simp_all

lemma hex4_inj:
  assumes "v < 65536" and "w < 65536" and "hex4 v = hex4 w"
  shows "v = w"
proof -
  have d: "v div 4096 mod 16 = w div 4096 mod 16" "v div 256 mod 16 = w div 256 mod 16"
    "v div 16 mod 16 = w div 16 mod 16" "v mod 16 = w mod 16"
    using assms(3) by (auto simp: hex4_def intro: hex_digit_inj[rotated 2])
  have split: "x = ((x div 4096 mod 16 * 16 + x div 256 mod 16) * 16 + x div 16 mod 16) * 16 + x mod 16"
    if "x < 65536" for x :: nat
  proof -
    let ?y = "x div 16" let ?z = "?y div 16" let ?u = "?z div 16"
    have eq: "x div 256 = ?z" "x div 4096 = ?u"
      by (simp_all add: div_mult2_eq[symmetric])
    have "x div 4096 < 16" using that by (intro less_mult_imp_div_less) simp
    then have "?u mod 16 = ?u" unfolding eq by simp
    then show ?thesis unfolding eq by simp
  qed
  show ?thesis
    by (subst split[OF assms(1)], subst split[OF assms(2)]) (simp only: d)
qed

lemma length_hex4 [simp]: "length (hex4 v) = 4"
  by (simp add: hex4_def)

lemma u_escape_cancel:
  "v < 65536 \<Longrightarrow> w < 65536 \<Longrightarrow> u_escape v @ x = u_escape w @ y \<longleftrightarrow> v = w \<and> x = y"
  by (auto simp: u_escape_def dest: hex4_inj)

text \<open>The three shapes of an escape.\<close>

lemma json_escape_cases:
  assumes "scalar c"
  obtains (short) x where "short_escape c = Some x" "json_escape c = [backslash, x]" "x \<noteq> CHR ''u''"
    | (plain) "short_escape c = None" "json_escape c = [char_of c]" "32 \<le> c" "c \<le> 126"
    | (bmp) "json_escape c = u_escape c" "c < 65536" "\<not> surrogate c"
    | (astral) "0x10000 \<le> c" "c < 0x110000"
        "json_escape c = u_escape (0xD800 + (c - 0x10000) div 1024) @
           u_escape (0xDC00 + (c - 0x10000) mod 1024)"
proof (cases "short_escape c")
  case (Some x)
  then have "x \<noteq> CHR ''u''"
    by (auto simp: short_escape_def quote_def backslash_def split: if_splits)
  with Some short show ?thesis by (simp add: json_escape_def)
next
  case None
  consider "32 \<le> c \<and> c \<le> 126" | "\<not> (32 \<le> c \<and> c \<le> 126)" "c < 65536" | "0x10000 \<le> c"
    by linarith
  then show ?thesis
  proof cases
    case 1
    with None plain show ?thesis by (simp add: json_escape_def)
  next
    case 2
    then have "json_escape c = u_escape c" using None by (auto simp: json_escape_def)
    with 2 bmp assms show ?thesis by (simp add: scalar_def)
  next
    case 3
    with None astral assms show ?thesis by (simp add: json_escape_def scalar_def)
  qed
qed

lemma plain_char:
  assumes "short_escape c = None" and "32 \<le> c" and "c \<le> 126"
  shows "char_of c \<noteq> backslash \<and> char_of c \<noteq> quote"
proof -
  have "of_char (char_of c :: char) = c" using assms(3) by (simp add: of_char_of)
  moreover have "(of_char backslash :: nat) = 92" "(of_char quote :: nat) = 34"
    by (simp_all add: backslash_def quote_def)
  moreover have "c \<noteq> 92" "c \<noteq> 34" using assms(1) by (auto simp: short_escape_def)
  ultimately show ?thesis by metis
qed

lemma short_escape_inj:
  "short_escape c = Some x \<Longrightarrow> short_escape d = Some x \<Longrightarrow> c = d"
  by (auto simp: short_escape_def quote_def backslash_def split: if_splits)

lemma astral_halves:
  assumes "(0x10000 :: nat) \<le> c" and "c < 0x110000"
  shows "0xD800 + (c - 0x10000) div 1024 < 0xDC00"
    and "0xDC00 + (c - 0x10000) mod 1024 < 0xE000"
proof -
  have "(c - 0x10000) div 1024 < 1024" by (rule less_mult_imp_div_less) (use assms in simp)
  then show "0xD800 + (c - 0x10000) div 1024 < 0xDC00" by simp
  have "(c - 0x10000) mod 1024 < 1024" by simp
  then show "0xDC00 + (c - 0x10000) mod 1024 < 0xE000" by linarith
qed

lemma json_escape_hd:
  assumes "scalar c"
  shows "\<exists>a b. json_escape c = a # b \<and> a \<noteq> quote"
  using assms
proof (cases rule: json_escape_cases)
  case short
  then show ?thesis by (simp add: backslash_def quote_def)
next
  case plain
  then show ?thesis using plain_char by simp
next
  case bmp
  then show ?thesis by (simp add: u_escape_def backslash_def quote_def)
next
  case astral
  then show ?thesis by (simp add: u_escape_def backslash_def quote_def)
qed

lemma u_escape_astral:
  assumes "scalar c" and "c < 65536" and "(0x10000 :: nat) \<le> d" and "d < 0x110000"
    and "u_escape c @ x = u_escape (0xD800 + (d - 0x10000) div 1024) @ y"
  shows False
proof -
  have "0xD800 + (d - 0x10000) div 1024 < 65536" using astral_halves(1)[OF assms(3,4)] by simp
  with assms(2,5) have "c = 0xD800 + (d - 0x10000) div 1024" by (simp add: u_escape_cancel)
  with astral_halves(1)[OF assms(3,4)] assms(1) show False
    by (simp add: scalar_def surrogate_def)
qed

text \<open>A surrogate pair determines its character.\<close>

lemma surrogate_pair_cancel:
  assumes c: "0x10000 \<le> c" "c < 0x110000" and d: "0x10000 \<le> d" "d < 0x110000"
    and eq: "u_escape (0xD800 + (c - 0x10000) div 1024) @
        u_escape (0xDC00 + (c - 0x10000) mod 1024) @ x =
      u_escape (0xD800 + (d - 0x10000) div 1024) @
        u_escape (0xDC00 + (d - 0x10000) mod 1024) @ y"
  shows "c = d \<and> x = y"
proof -
  let ?hi = "\<lambda>c. 0xD800 + (c - 0x10000) div 1024 :: nat"
  let ?lo = "\<lambda>c. 0xDC00 + (c - 0x10000) mod 1024 :: nat"
  have "?hi c < 65536" "?hi d < 65536" "?lo c < 65536" "?lo d < 65536"
    using astral_halves[OF c] astral_halves[OF d] by simp_all
  with eq have h: "?hi c = ?hi d" "?lo c = ?lo d" "x = y" by (simp_all add: u_escape_cancel)
  then have "c - 0x10000 = d - 0x10000"
    by (metis add_left_cancel div_mult_mod_eq)
  with c(1) d(1) h(3) show ?thesis by simp
qed

lemma json_escape_cancel:
  assumes c: "scalar c" and d: "scalar d" and eq: "json_escape c @ x = json_escape d @ y"
  shows "c = d \<and> x = y"
  using c
proof (cases rule: json_escape_cases)
  case (short a)
  show ?thesis
    using d
  proof (cases rule: json_escape_cases)
    case short': (short b)
    with short eq show ?thesis by (auto dest: short_escape_inj)
  next
    case plain
    with short eq plain_char[OF plain(1,3,4)] show ?thesis by simp
  qed (use short eq in \<open>simp_all add: u_escape_def\<close>)
next
  case plain
  note pc = plain_char[OF plain(1,3,4)]
  show ?thesis
    using d
  proof (cases rule: json_escape_cases)
    case plain': plain
    have "of_char (char_of c :: char) = c" "of_char (char_of d :: char) = d"
      using plain(4) plain'(4) by (simp_all add: of_char_of)
    moreover from plain plain' eq have "(char_of c :: char) = char_of d" "x = y" by simp_all
    ultimately show ?thesis by metis
  qed (use plain(2) pc eq in \<open>simp_all add: u_escape_def\<close>)
next
  case bmp
  show ?thesis
    using d
  proof (cases rule: json_escape_cases)
    case bmp': bmp
    with bmp eq show ?thesis by (simp add: u_escape_cancel)
  next
    case astral
    with u_escape_astral[OF c bmp(2) astral(1,2)] bmp(1) eq show ?thesis by (metis append_assoc)
  next
    case plain
    with plain_char[OF plain(1,3,4)] bmp(1) eq show ?thesis by (simp add: u_escape_def)
  qed (use bmp(1) eq in \<open>simp_all add: u_escape_def\<close>)
next
  case astral
  show ?thesis
    using d
  proof (cases rule: json_escape_cases)
    case bmp
    with u_escape_astral[OF d bmp(2) astral(1,2)] astral(3) eq show ?thesis
      by (metis append_assoc)
  next
    case astral': astral
    from eq astral(3) astral'(3) show ?thesis
      by (intro surrogate_pair_cancel[OF astral(1,2) astral'(1,2)]) simp
  next
    case plain
    with plain_char[OF plain(1,3,4)] astral(3) eq show ?thesis by (simp add: u_escape_def)
  qed (use astral(3) eq in \<open>simp_all add: u_escape_def\<close>)
qed

lemma json_body_cancel:
  assumes "\<forall>c \<in> set s. scalar c" and "\<forall>c \<in> set t. scalar c"
    and "concat (map json_escape s) @ quote # x = concat (map json_escape t) @ quote # y"
  shows "s = t \<and> x = y"
  using assms
proof (induction s arbitrary: t)
  case Nil
  then show ?case using json_escape_hd by (cases t) fastforce+
next
  case (Cons c s)
  show ?case
  proof (cases t)
    case Nil
    with Cons.prems json_escape_hd[of c] show ?thesis by auto
  next
    case (Cons d u)
    with Cons.prems json_escape_cancel[of c d "concat (map json_escape s) @ quote # x"
        "concat (map json_escape u) @ quote # y"]
    have "c = d" "concat (map json_escape s) @ quote # x = concat (map json_escape u) @ quote # y"
      by simp_all
    with Cons Cons.IH[of u] Cons.prems show ?thesis by simp
  qed
qed

lemma json_dumps_cancel:
  assumes "\<forall>c \<in> set s. scalar c" and "\<forall>c \<in> set t. scalar c"
    and "json_dumps s @ x = json_dumps t @ y"
  shows "s = t \<and> x = y"
  using json_body_cancel[OF assms(1,2), of x y] assms(3) by (simp add: json_dumps_def)

text \<open>Two strings with surrogates can have the same encoding: the astral escape is a pair.\<close>

lemma json_dumps_surrogates:
  "json_dumps [0x1F600] = json_dumps [0xD83D, 0xDE00]"
  by (simp add: json_dumps_def json_escape_def short_escape_def)

lemma sep_cancel:
  "c \<notin> set a \<Longrightarrow> c \<notin> set b \<Longrightarrow> a @ c # x = b @ c # y \<Longrightarrow> a = b \<and> x = y"
proof (induction a arbitrary: b)
  case Nil
  then show ?case by (cases b) auto
next
  case (Cons z a)
  then show ?case by (cases b) auto
qed

lemma comma_not_in_int: "CHR '','' \<notin> set (str_int i)"
  using set_str_int[of i] by (auto simp: digit_chars_def)

lemma str_int_cancel: "str_int i @ '','' @ x = str_int j @ '','' @ y \<Longrightarrow> i = j \<and> x = y"
  using sep_cancel[OF comma_not_in_int comma_not_in_int, of i x j y] str_int_inj by auto

section \<open>The payload determines the receipt\<close>

definition valid_fields :: "receipt_fields \<Rightarrow> bool" where
  "valid_fields r \<longleftrightarrow>
     (\<forall>c \<in> set (rf_request_id r) \<union> set (rf_model r) \<union> set (rf_request_sha256 r) \<union>
        set (rf_response_sha256 r) \<union> set (rf_pubkey r). scalar c)"

lemma canonical_payload_inj:
  assumes "valid_fields r" and "valid_fields r'" and "canonical_payload r = canonical_payload r'"
  shows "r = r'"
proof -
  have v: "\<forall>c \<in> set (rf_request_id r). scalar c" "\<forall>c \<in> set (rf_request_id r'). scalar c"
    "\<forall>c \<in> set (rf_model r). scalar c" "\<forall>c \<in> set (rf_model r'). scalar c"
    "\<forall>c \<in> set (rf_request_sha256 r). scalar c" "\<forall>c \<in> set (rf_request_sha256 r'). scalar c"
    "\<forall>c \<in> set (rf_response_sha256 r). scalar c" "\<forall>c \<in> set (rf_response_sha256 r'). scalar c"
    "\<forall>c \<in> set (rf_pubkey r). scalar c" "\<forall>c \<in> set (rf_pubkey r'). scalar c"
    using assms(1,2) by (auto simp: valid_fields_def)
  note e0 = assms(3)[unfolded canonical_payload_def same_append_eq]
  note e1 = str_int_cancel[OF e0]
  note e2 = str_int_cancel[OF e1[THEN conjunct2, unfolded same_append_eq]]
  note e3 = json_dumps_cancel[OF v(3,4) e2[THEN conjunct2, unfolded same_append_eq]]
  note e4 = str_int_cancel[OF e3[THEN conjunct2, unfolded same_append_eq]]
  note e5 = json_dumps_cancel[OF v(9,10) e4[THEN conjunct2, unfolded same_append_eq]]
  note e6 = json_dumps_cancel[OF v(1,2) e5[THEN conjunct2, unfolded same_append_eq]]
  note e7 = json_dumps_cancel[OF v(5,6) e6[THEN conjunct2, unfolded same_append_eq]]
  note e8 = json_dumps_cancel[OF v(7,8) e7[THEN conjunct2, unfolded same_append_eq]]
  note e9 = str_int_cancel[OF e8[THEN conjunct2, unfolded same_append_eq]]
  show ?thesis
    using e1 e2 e3 e4 e5 e6 e7 e8 e9
    by (simp only: receipt_fields.equality simp_thms) (simp add: receipt_fields.equality)
qed

text \<open>The payload is ASCII, so \<open>encode("utf-8")\<close> keeps it as it is.\<close>

definition ascii :: "string \<Rightarrow> bool" where
  "ascii s \<longleftrightarrow> (\<forall>c \<in> set s. of_char c < (128 :: nat))"

lemma ascii_simps [simp]:
  "ascii []" "ascii (c # s) \<longleftrightarrow> of_char c < (128 :: nat) \<and> ascii s"
  "ascii (s @ t) \<longleftrightarrow> ascii s \<and> ascii t"
  by (auto simp: ascii_def)

lemma ascii_hex_digit: "d < 16 \<Longrightarrow> of_char (hex_digit d) < (128 :: nat)"
proof -
  assume "d < 16"
  then have "hex_digit d \<in> set ''0123456789abcdef''" unfolding hex_digit_def by (intro nth_mem) simp
  then show ?thesis by auto
qed

lemma ascii_u_escape: "ascii (u_escape v)"
  by (simp add: u_escape_def hex4_def ascii_hex_digit backslash_def)

lemma ascii_json_escape: "ascii (json_escape c)"
  by (auto simp: json_escape_def short_escape_def ascii_u_escape backslash_def quote_def
      of_char_of split: option.splits if_splits)

lemma ascii_json_dumps: "ascii (json_dumps s)"
proof -
  have "ascii (concat (map json_escape s))" by (induction s) (simp_all add: ascii_json_escape)
  then show ?thesis by (simp add: json_dumps_def quote_def)
qed

lemma ascii_str_int: "ascii (str_int i)"
  unfolding ascii_def using set_str_int[of i] by (auto simp: digit_chars_def)

lemma ascii_canonical_payload: "ascii (canonical_payload r)"
  by (simp add: canonical_payload_def json_key_def ascii_json_dumps ascii_str_int quote_def)

section \<open>The signing key\<close>

text \<open>
  The parts of the ed25519 library in use: reading a private key from bytes (\<open>None\<close> where it
  raises \<open>ValueError\<close>), its bytes, its public key in hex, and signing.
\<close>

record 'k crypto =
  cr_parse :: "string \<Rightarrow> 'k option"
  cr_raw :: "'k \<Rightarrow> string"
  cr_pub :: "'k \<Rightarrow> code_points"
  cr_sign :: "'k \<Rightarrow> string \<Rightarrow> string"

record 'k signer =
  sg_key :: 'k
  sg_persistent :: bool

definition pubkey_hex :: "'k crypto \<Rightarrow> 'k signer \<Rightarrow> code_points" where
  "pubkey_hex cr s = cr_pub cr (sg_key s)"

definition sign :: "'k crypto \<Rightarrow> 'k signer \<Rightarrow> string \<Rightarrow> string" where
  "sign cr s payload = cr_sign cr (sg_key s) payload"

text \<open>
  What a call of \<open>get_signer\<close> meets: whether the key file can be read, its directory made,
  the file opened for writing; after how many bytes a write fails, if it does; and the keys a
  generation would give.
\<close>

record 'k key_world =
  kw_read_ok :: bool
  kw_makedirs_ok :: bool
  kw_open_ok :: bool
  kw_write_fails :: "nat option"
  kw_key :: 'k
  kw_ephemeral :: 'k

text \<open>The module's \<open>_signer\<close> and the content of the key file, and what the call returns.\<close>

definition get_signer ::
  "'k crypto \<Rightarrow> 'k key_world \<Rightarrow> 'k signer option \<Rightarrow> string option \<Rightarrow>
   'k signer result \<times> 'k signer option \<times> string option" where
  "get_signer cr w cache file =
     (let done = (\<lambda>s f. (Inr s, Some s, f));
          ephemeral = \<lparr>sg_key = kw_ephemeral w, sg_persistent = False\<rparr> in
      case cache of
        Some s \<Rightarrow> (Inr s, cache, file)
      | None \<Rightarrow>
          (case file of
             Some bytes \<Rightarrow>
               if \<not> kw_read_ok w then done ephemeral file
               else (case cr_parse cr bytes of
                       None \<Rightarrow> (Inl (ValueError ''An Ed25519 private key is 32 bytes long''), None, file)
                     | Some k \<Rightarrow> done \<lparr>sg_key = k, sg_persistent = True\<rparr> file)
           | None \<Rightarrow>
               if \<not> kw_makedirs_ok w \<or> \<not> kw_open_ok w then done ephemeral file
               else (case kw_write_fails w of
                       Some n \<Rightarrow> done ephemeral (Some (take n (cr_raw cr (kw_key w))))
                     | None \<Rightarrow>
                         done \<lparr>sg_key = kw_key w, sg_persistent = True\<rparr>
                           (Some (cr_raw cr (kw_key w))))))"

text \<open>Within a process the key never changes.\<close>

lemma get_signer_stable:
  "get_signer cr w cache file = (Inr s, cache', file') \<Longrightarrow>
   cache' = Some s \<and> get_signer cr w' cache' file'' = (Inr s, cache', file'')"
  by (auto simp: get_signer_def Let_def split: option.splits if_splits)

text \<open>A key that was reported persistent is the one a later process loads.\<close>

lemma get_signer_persists:
  assumes "\<And>k. cr_parse cr (cr_raw cr k) = Some k"
    and "get_signer cr w None None = (Inr s, cache', file')" and "sg_persistent s"
    and "kw_read_ok w'"
  shows "get_signer cr w' None file' = (Inr s, Some s, file')"
  using assms
  by (auto simp: get_signer_def Let_def split: option.splits if_splits)

text \<open>
  A write that fails half way leaves a short file.  The process that did it goes on with an
  ephemeral key, but every later one finds the file, and \<open>get_signer\<close> raises at each call.
\<close>

lemma get_signer_short_file:
  assumes "cr_parse cr (take n (cr_raw cr (kw_key w))) = None"
    and "kw_makedirs_ok w" and "kw_open_ok w" and "kw_write_fails w = Some n"
    and "get_signer cr w None None = (r, cache', file')" and "kw_read_ok w'"
  shows "\<exists>s. r = Inr s \<and> \<not> sg_persistent s \<and>
    get_signer cr w' None file' =
      (Inl (ValueError ''An Ed25519 private key is 32 bytes long''), None, file')"
  using assms by (auto simp: get_signer_def Let_def)

section \<open>Receipts\<close>

record receipt =
  rc_v :: int
  rc_fields :: receipt_fields
  rc_sig :: string

definition build_receipt ::
  "'k crypto \<Rightarrow> 'k signer result \<Rightarrow> rat \<Rightarrow> code_points \<Rightarrow> code_points \<Rightarrow> code_points \<Rightarrow> code_points \<Rightarrow>
   int \<Rightarrow> int \<Rightarrow> int \<Rightarrow> receipt result" where
  "build_receipt cr signer time request_id model request_sha response_sha prompt completion cached =
     bind_result signer (\<lambda>s.
       let f = \<lparr>rf_request_id = request_id, rf_model = model, rf_request_sha256 = request_sha,
                rf_response_sha256 = response_sha, rf_prompt_tokens = prompt,
                rf_completion_tokens = completion, rf_cached_tokens = cached,
                rf_ts = \<lfloor>time\<rfloor>, rf_pubkey = pubkey_hex cr s\<rparr> in
       Inr \<lparr>rc_v = 1, rc_fields = f, rc_sig = sign cr s (canonical_payload f)\<rparr>)"

text \<open>The check a holder of the receipt makes, with the library's verification.\<close>

definition receipt_verifies :: "(code_points \<Rightarrow> string \<Rightarrow> string \<Rightarrow> bool) \<Rightarrow> receipt \<Rightarrow> bool" where
  "receipt_verifies verify r =
     verify (rf_pubkey (rc_fields r)) (canonical_payload (rc_fields r)) (rc_sig r)"

lemma build_receipt_fields:
  "build_receipt cr (Inr s) time rid m rsha osha p c k = Inr r \<Longrightarrow>
     rf_request_id (rc_fields r) = rid \<and> rf_model (rc_fields r) = m \<and>
     rf_request_sha256 (rc_fields r) = rsha \<and> rf_response_sha256 (rc_fields r) = osha \<and>
     rf_prompt_tokens (rc_fields r) = p \<and> rf_completion_tokens (rc_fields r) = c \<and>
     rf_cached_tokens (rc_fields r) = k \<and> rf_pubkey (rc_fields r) = pubkey_hex cr s"
  by (auto simp: build_receipt_def Let_def)

lemma build_receipt_verifies:
  assumes "\<And>k m. verify (cr_pub cr k) m (cr_sign cr k m)"
    and "build_receipt cr signer time rid m rsha osha p c k = Inr r"
  shows "receipt_verifies verify r"
  using assms
  by (auto simp: build_receipt_def receipt_verifies_def bind_result_eq_Inr Let_def pubkey_hex_def
      sign_def)

end
