(* ===== verification/Json.thy ===== *)
theory Json
  imports Receipt
begin

text \<open>
  \<open>json.dumps\<close> of the values the service sends: \<open>null\<close>, integers, strings, lists and
  dictionaries in insertion order, with the item and key separators as parameters.  The text
  determines the value, and it is printable ASCII.
\<close>

datatype json =
    JNull | JInt int | JStr code_points | JList "json list" | JObj "(string \<times> json) list"

text \<open>
  Keys are the literals of the code: plain ASCII names, which need no escapes.
\<close>

fun dumps :: "string \<Rightarrow> string \<Rightarrow> json \<Rightarrow> string" where
  "dumps isep ksep JNull = ''null''"
| "dumps isep ksep (JInt i) = str_int i"
| "dumps isep ksep (JStr s) = json_dumps s"
| "dumps isep ksep (JList vs) = ''['' @ join_with isep (map (dumps isep ksep) vs) @ '']''"
| "dumps isep ksep (JObj kvs) =
     ''{'' @ join_with isep (map (\<lambda>(k, v). [quote] @ k @ [quote] @ ksep @ dumps isep ksep v) kvs) @
     ''}''"

section \<open>The text determines the value\<close>

text \<open>Strings are of Unicode scalar values, keys have no quote.\<close>

fun json_valid :: "json \<Rightarrow> bool" where
  "json_valid JNull = True"
| "json_valid (JInt i) = True"
| "json_valid (JStr s) = list_all scalar s"
| "json_valid (JList vs) = list_all json_valid vs"
| "json_valid (JObj kvs) = list_all (\<lambda>(k, v). quote \<notin> set k \<and> json_valid v) kvs"

text \<open>What may follow a value inside a text.\<close>

definition value_end :: "string \<Rightarrow> bool" where
  "value_end x \<longleftrightarrow> x = [] \<or> hd x \<in> {CHR '','', CHR '']'', CHR ''}''}"

lemma value_end_simps [simp]:
  "value_end []" "value_end (c # x) \<longleftrightarrow> c \<in> {CHR '','', CHR '']'', CHR ''}''}"
  by (simp_all add: value_end_def)

text \<open>
  \<open>f\<close> is a code for \<open>v\<close> among the values of \<open>W\<close>, when the text is followed by the end of a
  value.
\<close>

definition determines :: "('v \<Rightarrow> string) \<Rightarrow> 'v set \<Rightarrow> 'v \<Rightarrow> bool" where
  "determines f W v \<longleftrightarrow> (\<forall>w \<in> W. \<forall>x y. value_end x \<longrightarrow> value_end y \<longrightarrow>
     f v @ x = f w @ y \<longrightarrow> v = w \<and> x = y)"

lemma determinesD:
  "determines f W v \<Longrightarrow> w \<in> W \<Longrightarrow> f v @ x = f w @ y \<Longrightarrow> value_end x \<Longrightarrow> value_end y \<Longrightarrow>
   v = w \<and> x = y"
  by (auto simp: determines_def)

lemma join_with_Cons:
  "join_with sep (x # xs) = x @ concat (map (\<lambda>y. sep @ y) xs)"
  by (induction xs arbitrary: x) simp_all

text \<open>The items after the first one, up to the closing bracket \<open>c\<close>.\<close>

definition items :: "string \<Rightarrow> ('v \<Rightarrow> string) \<Rightarrow> 'v list \<Rightarrow> char \<Rightarrow> string \<Rightarrow> string" where
  "items sep f vs c x = concat (map (\<lambda>v. sep @ f v) vs) @ c # x"

lemma items_simps:
  "items sep f [] c x = c # x"
  "items sep f (v # vs) c x = sep @ f v @ items sep f vs c x"
  by (simp_all add: items_def)

lemma join_items:
  "join_with sep (map f (v # vs)) @ c # x = f v @ items sep f vs c x"
  by (simp add: join_with_Cons items_def comp_def)

definition separator :: "string \<Rightarrow> bool" where
  "separator sep \<longleftrightarrow> prefix '','' sep"

lemma items_end:
  "separator sep \<Longrightarrow> c \<in> {CHR '']'', CHR ''}''} \<Longrightarrow> value_end (items sep f vs c x)"
  by (cases vs) (auto simp: items_simps separator_def prefix_def)

lemma items_cancel:
  assumes "separator sep" and "c \<in> {CHR '']'', CHR ''}''}"
    and "\<forall>v \<in> set vs. determines f W v" and "set ws \<subseteq> W"
    and "items sep f vs c x = items sep f ws c y"
  shows "vs = ws \<and> x = y"
  using assms(3-5)
proof (induction vs arbitrary: ws)
  case Nil
  with assms(1,2) show ?case by (cases ws) (auto simp: items_simps separator_def prefix_def)
next
  case (Cons v vs)
  obtain w us where ws: "ws = w # us"
    using Cons.prems(3) assms(1,2) by (cases ws) (auto simp: items_simps separator_def prefix_def)
  with Cons.prems(3) have eq: "f v @ items sep f vs c x = f w @ items sep f us c y"
    by (simp add: items_simps)
  have "v = w \<and> items sep f vs c x = items sep f us c y"
    by (rule determinesD[of f W, OF _ _ eq]) (use Cons.prems ws items_end[OF assms(1,2)] in auto)
  with Cons.IH[of us] Cons.prems ws show ?case by auto
qed

text \<open>A text never starts with a closing bracket.\<close>

definition opens :: "string \<Rightarrow> bool" where
  "opens s \<longleftrightarrow> s \<noteq> [] \<and> hd s \<notin> {CHR '']'', CHR ''}''}"

lemma bracketed_cancel:
  assumes "separator sep" and "c \<in> {CHR '']'', CHR ''}''}"
    and "\<forall>v \<in> set vs. determines f W v" and "set ws \<subseteq> W"
    and "\<forall>v \<in> set vs \<union> set ws. opens (f v)"
    and "join_with sep (map f vs) @ c # x = join_with sep (map f ws) @ c # y"
  shows "vs = ws \<and> x = y"
proof (cases vs)
  case Nil
  show ?thesis
  proof (cases ws)
    case (Cons w us)
    with assms(5) have "opens (f w)" by simp
    with assms(2,6) Nil Cons join_items[of sep f w us c y] show ?thesis
      by (cases "f w") (auto simp: opens_def)
  qed (use Nil assms(6) in simp)
next
  case v: (Cons v vs')
  show ?thesis
  proof (cases ws)
    case Nil
    with assms(5) v have "opens (f v)" by simp
    with assms(2,6) Nil v join_items[of sep f v vs' c x] show ?thesis
      by (cases "f v") (auto simp: opens_def)
  next
    case w: (Cons w us)
    have "f v @ items sep f vs' c x = f w @ items sep f us c y"
      using assms(6) by (simp only: v w join_items)
    from determinesD[of f W, OF _ _ this] have
      "v = w \<and> items sep f vs' c x = items sep f us c y"
      using assms(3,4) v w items_end[OF assms(1,2), of f] by simp
    with items_cancel[OF assms(1,2), of vs' f W us x y] assms(3,4) v w show ?thesis by simp
  qed
qed

lemma dumps_opens: "opens (dumps isep ksep v)"
proof (cases v)
  case (JInt i)
  have "hd (str_int i) \<in> insert (CHR ''-'') digit_chars"
    using set_str_int[of i] hd_in_set[OF str_int_ne, of i] by blast
  with JInt show ?thesis by (auto simp: opens_def digit_chars_def)
qed (simp_all add: opens_def json_dumps_def quote_def)

text \<open>The first character tells the kind of a value.\<close>

lemma digit_texts_cancel:
  assumes "str_int i @ x = str_int j @ y" and "value_end x" and "value_end y"
  shows "i = j \<and> x = y"
proof -
  let ?d = "\<lambda>c. c \<in> insert (CHR ''-'') digit_chars"
  have stop: "takeWhile ?d z = []" if "value_end z" for z
    using that by (cases z) (auto simp: digit_chars_def)
  have "takeWhile ?d (str_int k @ z) = str_int k" if "value_end z" for k z
  proof -
    have "\<forall>c \<in> set (str_int k). ?d c" using set_str_int[of k] by blast
    then show ?thesis using stop[OF that] by (simp add: takeWhile_append2)
  qed
  with assms have "str_int i = str_int j" by metis
  with assms(1) show ?thesis using str_int_inj by auto
qed

text \<open>Which kinds of value a first character may begin.\<close>

fun kind_chars :: "json \<Rightarrow> char set" where
  "kind_chars JNull = {CHR ''n''}"
| "kind_chars (JInt i) = insert (CHR ''-'') digit_chars"
| "kind_chars (JStr s) = {quote}"
| "kind_chars (JList vs) = {CHR ''[''}"
| "kind_chars (JObj kvs) = {CHR ''{''}"

lemma dumps_head: "hd (dumps isep ksep v @ x) \<in> kind_chars v"
proof (cases v)
  case (JInt i)
  have "hd (str_int i) \<in> insert (CHR ''-'') digit_chars"
    using set_str_int[of i] hd_in_set[OF str_int_ne, of i] by blast
  with JInt show ?thesis by simp
qed (simp_all add: json_dumps_def)

lemma same_kind:
  assumes "dumps isep ksep v @ x = dumps isep ksep w @ y"
  shows "kind_chars v \<inter> kind_chars w \<noteq> {}"
  using dumps_head[of isep ksep v x] dumps_head[of isep ksep w y] assms by auto

lemma key_cancel:
  "quote \<notin> set k \<Longrightarrow> quote \<notin> set l \<Longrightarrow>
   ([quote] @ k @ [quote] @ sep @ s) @ x = ([quote] @ l @ [quote] @ sep @ t) @ y \<Longrightarrow>
   k = l \<and> s @ x = t @ y"
  using sep_cancel[of quote k l "sep @ s @ x" "sep @ t @ y"] by simp

text \<open>Lists and objects determine their items when the items do.\<close>

lemma list_determines:
  assumes sep: "separator isep" and det: "\<forall>v \<in> set vs. determines (dumps isep ksep) {w. json_valid w} v"
  shows "determines (dumps isep ksep) {w. json_valid w} (JList vs)"
proof -
  have "w = JList vs \<and> x = y"
    if eq: "dumps isep ksep (JList vs) @ x = dumps isep ksep w @ y" and "json_valid w" for w x y
  proof -
    obtain ws where w: "w = JList ws"
      using same_kind[OF eq] by (cases w) (auto simp: digit_chars_def quote_def)
    have valid: "set ws \<subseteq> {w. json_valid w}" using that(2) w by (auto simp: list_all_iff)
    have "join_with isep (map (dumps isep ksep) vs) @ CHR '']'' # x =
        join_with isep (map (dumps isep ksep) ws) @ CHR '']'' # y"
      using eq w by simp
    from bracketed_cancel[OF sep _ det valid _ this] have "vs = ws \<and> x = y"
      by (simp add: dumps_opens)
    with w show ?thesis by simp
  qed
  then show ?thesis unfolding determines_def by blast
qed

abbreviation dumps_member :: "string \<Rightarrow> string \<Rightarrow> string \<times> json \<Rightarrow> string" where
  "dumps_member isep ksep \<equiv> \<lambda>(k, v). [quote] @ k @ [quote] @ ksep @ dumps isep ksep v"

lemma member_determines:
  assumes det: "determines (dumps isep ksep) {w. json_valid w} v"
    and kv: "quote \<notin> set k" "json_valid v"
  shows "determines (dumps_member isep ksep) {(k, v). quote \<notin> set k \<and> json_valid v} (k, v)"
  unfolding determines_def
proof (intro ballI allI impI)
  fix w x y
  assume w: "w \<in> {(k, v). quote \<notin> set k \<and> json_valid v}" and e: "value_end x" "value_end y"
    and eq: "dumps_member isep ksep (k, v) @ x = dumps_member isep ksep w @ y"
  obtain l u where lu: "w = (l, u)" by (cases w)
  from key_cancel[of k l ksep "dumps isep ksep v" x "dumps isep ksep u" y] w lu kv eq
  have kl: "k = l" "dumps isep ksep v @ x = dumps isep ksep u @ y" by simp_all
  from determinesD[OF det _ kl(2) e] w lu kl(1) show "(k, v) = w \<and> x = y" by simp
qed

lemma object_determines:
  assumes sep: "separator isep"
    and det: "\<forall>kv \<in> set kvs.
      determines (dumps_member isep ksep) {(k, v). quote \<notin> set k \<and> json_valid v} kv"
  shows "determines (dumps isep ksep) {w. json_valid w} (JObj kvs)"
proof -
  have "w = JObj kvs \<and> x = y"
    if eq: "dumps isep ksep (JObj kvs) @ x = dumps isep ksep w @ y" and "json_valid w" for w x y
  proof -
    obtain ws where w: "w = JObj ws"
      using same_kind[OF eq] by (cases w) (auto simp: digit_chars_def quote_def)
    have valid: "set ws \<subseteq> {(k, v). quote \<notin> set k \<and> json_valid v}"
      using that(2) w by (auto simp: list_all_iff)
    have opens: "\<forall>kv \<in> set kvs \<union> set ws. opens (dumps_member isep ksep kv)"
      by (auto simp: opens_def quote_def)
    have "join_with isep (map (dumps_member isep ksep) kvs) @ CHR ''}'' # x =
        join_with isep (map (dumps_member isep ksep) ws) @ CHR ''}'' # y"
      using eq w by simp
    from bracketed_cancel[OF sep _ det valid opens this] have "kvs = ws \<and> x = y" by simp
    with w show ?thesis by simp
  qed
  then show ?thesis unfolding determines_def by blast
qed

lemma dumps_determines:
  assumes "separator isep"
  shows "json_valid v \<Longrightarrow> determines (dumps isep ksep) {w. json_valid w} v"
  using assms
proof (induction isep ksep v rule: dumps.induct)
  case (1 isep ksep)
  have "w = JNull \<and> x = y" if "dumps isep ksep JNull @ x = dumps isep ksep w @ y" for w x y
    using same_kind[OF that] that by (cases w) (auto simp: digit_chars_def quote_def)
  then show ?case unfolding determines_def by metis
next
  case (2 isep ksep i)
  have "w = JInt i \<and> x = y"
    if "dumps isep ksep (JInt i) @ x = dumps isep ksep w @ y" "value_end x" "value_end y" for w x y
    using same_kind[OF that(1)] that digit_texts_cancel[of i x _ y]
    by (cases w) (auto simp: digit_chars_def quote_def)
  then show ?case unfolding determines_def by metis
next
  case (3 isep ksep s)
  have "w = JStr s \<and> x = y"
    if eq: "dumps isep ksep (JStr s) @ x = dumps isep ksep w @ y" and "json_valid w" for w x y
  proof -
    obtain t where w: "w = JStr t"
      using same_kind[OF eq] by (cases w) (auto simp: digit_chars_def quote_def)
    with that "3.prems"(1) have "\<forall>c \<in> set s. scalar c" "\<forall>c \<in> set t. scalar c"
      "json_dumps s @ x = json_dumps t @ y"
      by (simp_all add: list_all_iff)
    from json_dumps_cancel[OF this] w show ?thesis by simp
  qed
  then show ?case unfolding determines_def by blast
next
  case (4 isep ksep vs)
  then show ?case by (intro list_determines) (auto simp: list_all_iff)
next
  case (5 isep ksep kvs)
  have "determines (dumps_member isep ksep) {(k, v). quote \<notin> set k \<and> json_valid v} kv"
    if "kv \<in> set kvs" for kv
  proof -
    obtain k v where kv: "kv = (k, v)" by (cases kv)
    with that "5.prems"(1) have "quote \<notin> set k" "json_valid v" by (auto simp: list_all_iff)
    with "5.IH"[of kv] that kv "5.prems"(2) show ?thesis by (metis member_determines)
  qed
  with "5.prems"(2) show ?case by (intro object_determines ballI)
qed

lemma dumps_inj:
  assumes "separator isep" and "json_valid v" and "json_valid w"
    and "dumps isep ksep v = dumps isep ksep w"
  shows "v = w"
  using determinesD[OF dumps_determines[OF assms(1,2)], of w ksep "[]" "[]"] assms(3,4) by simp

section \<open>The text is printable ASCII\<close>

definition printable :: "string \<Rightarrow> bool" where
  "printable s \<longleftrightarrow> (\<forall>c \<in> set s. 32 \<le> (of_char c :: nat) \<and> (of_char c :: nat) \<le> 126)"

lemma printable_simps [simp]:
  "printable []"
  "printable (c # s) \<longleftrightarrow> 32 \<le> (of_char c :: nat) \<and> (of_char c :: nat) \<le> 126 \<and> printable s"
  "printable (s @ t) \<longleftrightarrow> printable s \<and> printable t"
  by (auto simp: printable_def)

lemma printable_hex_digit: "d < 16 \<Longrightarrow> printable [hex_digit d]"
proof -
  assume "d < 16"
  then have "hex_digit d \<in> set ''0123456789abcdef''" unfolding hex_digit_def by (intro nth_mem) simp
  then show ?thesis by auto
qed

lemma printable_json_escape: "printable (json_escape c)"
  using printable_hex_digit
  by (auto simp: json_escape_def short_escape_def u_escape_def hex4_def backslash_def quote_def
      of_char_of split: option.splits if_splits)

lemma printable_json_dumps: "printable (json_dumps s)"
proof -
  have "printable (concat (map json_escape s))" by (induction s) (simp_all add: printable_json_escape)
  then show ?thesis by (simp add: json_dumps_def quote_def)
qed

lemma printable_str_int: "printable (str_int i)"
  unfolding printable_def using set_str_int[of i] by (auto simp: digit_chars_def)

lemma printable_join:
  "printable sep \<Longrightarrow> (\<forall>s \<in> set ss. printable s) \<Longrightarrow> printable (join_with sep ss)"
  by (induction sep ss rule: join_with.induct) auto

fun json_keys_printable :: "json \<Rightarrow> bool" where
  "json_keys_printable (JList vs) = list_all json_keys_printable vs"
| "json_keys_printable (JObj kvs) = list_all (\<lambda>(k, v). printable k \<and> json_keys_printable v) kvs"
| "json_keys_printable v = True"

lemma printable_dumps:
  "printable isep \<Longrightarrow> printable ksep \<Longrightarrow> json_keys_printable v \<Longrightarrow> printable (dumps isep ksep v)"
proof (induction isep ksep v rule: dumps.induct)
  case (4 isep ksep vs)
  then show ?case by (auto simp: list_all_iff intro!: printable_join)
next
  case (5 isep ksep kvs)
  then show ?case by (fastforce simp: list_all_iff quote_def intro!: printable_join)
qed (simp_all add: printable_json_dumps printable_str_int)

end
