(* ===== verification/Listener.thy ===== *)
theory Listener
  imports Pool_Loop
begin

text \<open>
  \<open>SchedulerListener\<close> of \<open>scheduler_client/listener.py\<close>, with the two messages of
  \<open>grpc_client.py\<close> it uses: how the state the Go scheduler reports becomes calls of the engine.

  One call of \<open>_poll\<close> is a function of the listener's state and of what the world answers
  during it (\<open>poll_world\<close>); it yields the new state, the calls it dispatched to the engine, in
  order, and the heartbeat it sent.  The background thread runs one poll at a time.
\<close>

section \<open>Messages\<close>

text \<open>The values of \<open>GpuState\<close> and \<open>YieldUrgency\<close> in the generated protobuf module.\<close>

definition gpu_unknown :: int where "gpu_unknown = 0"
definition gpu_available :: int where "gpu_available = 1"
definition gpu_yielding :: int where "gpu_yielding = 2"
definition gpu_window_post :: int where "gpu_window_post = 3"
definition gpu_winning_post :: int where "gpu_winning_post = 4"

lemmas gpu_states =
  gpu_unknown_def gpu_available_def gpu_yielding_def gpu_window_post_def gpu_winning_post_def

definition yield_states :: "int set" where
  "yield_states = {gpu_yielding, gpu_window_post, gpu_winning_post}"

definition proto_urgency_to_engine :: "int \<Rightarrow> yield_urgency" where
  "proto_urgency_to_engine u = (if u = 0 then NORMAL else if u = 2 then IMMEDIATE else NORMAL)"

record gpu_schedule =
  gs_state :: int
  gs_seconds_until_next_change :: int
  gs_message :: string

definition schedule_is_available :: "gpu_schedule \<Rightarrow> bool" where
  "schedule_is_available s \<longleftrightarrow> gs_state s = gpu_available"

record status_report =
  sr_is_running :: bool
  sr_active_requests :: int
  sr_gpu_utilization_pct :: rat
  sr_loaded_model :: string
  sr_timestamp_unix :: int

text \<open>\<open>int(time.time())\<close>, which is not negative here.\<close>

definition report_of :: "rat \<Rightarrow> engine_status \<Rightarrow> status_report" where
  "report_of time st =
     \<lparr>sr_is_running = (es_state st = RUNNING), sr_active_requests = es_active_requests st,
      sr_gpu_utilization_pct = es_gpu_utilization_pct st, sr_loaded_model = es_loaded_model st,
      sr_timestamp_unix = \<lfloor>time\<rfloor>\<rparr>"

section \<open>The listener\<close>

record listener =
  l_preemptible :: bool                \<comment> \<open>\<open>hasattr(engine, "request_pause")\<close>\<close>
  l_last_state :: "int option"
  l_connected :: bool
  l_disconnect_since :: "rat option"
  l_failsafe_triggered :: bool
  l_resume_future :: bool              \<comment> \<open>\<open>_resume_future is not None\<close>\<close>

definition failsafe_timeout :: rat where "failsafe_timeout = 60"

definition listener_init :: "bool \<Rightarrow> listener" where
  "listener_init preemptible =
     \<lparr>l_preemptible = preemptible, l_last_state = None, l_connected = True,
      l_disconnect_since = None, l_failsafe_triggered = False, l_resume_future = False\<rparr>"

text \<open>
  The calls dispatched to the engine on the main loop.  A pause carries whether it returned
  without an exception within its time limit.
\<close>

datatype engine_call = RequestPause | Pause yield_urgency bool | Resume

text \<open>
  What the world answers: the schedule or an exception, the clock, whether a pause started now
  is acknowledged in time, whether the main loop takes a resume, the state of the resume in
  the background (\<open>None\<close> while it runs, else its exception if any), the engine's status or
  an exception, and the time of day.
\<close>

record poll_world =
  pw_schedule :: "gpu_schedule option"
  pw_now :: rat
  pw_pause_ok :: bool
  pw_dispatch_ok :: bool
  pw_resume_done :: "py_exn option option"
  pw_status :: "engine_status option"
  pw_time :: rat

subsection \<open>\<open>_apply_state\<close>\<close>

definition urgency_of_state :: "int \<Rightarrow> yield_urgency" where
  "urgency_of_state state = (if state = gpu_yielding then NORMAL else IMMEDIATE)"

definition apply_state ::
  "poll_world \<Rightarrow> int \<Rightarrow> listener \<Rightarrow> listener \<times> engine_call list \<times> bool" where
  "apply_state w state l =
     (if state = gpu_available
      then (if pw_dispatch_ok w then (l\<lparr>l_resume_future := True\<rparr>, [Resume], True)
            else (l, [], False))
      else if state \<in> yield_states
      then (let pre = (if l_preemptible l then [RequestPause] else []);
                u = urgency_of_state state in
            if pw_pause_ok w
            then (l\<lparr>l_resume_future := False\<rparr>, pre @ [Pause u True], True)
            else (l, pre @ [Pause u False], False))
      else (l, [], False))"

subsection \<open>\<open>_poll\<close>\<close>

text \<open>The branch of a failed \<open>get_gpu_schedule\<close>.\<close>

definition poll_disconnected :: "poll_world \<Rightarrow> listener \<Rightarrow> listener \<times> engine_call list" where
  "poll_disconnected w l =
     (let since = (case l_disconnect_since l of None \<Rightarrow> pw_now w | Some t \<Rightarrow> t);
          l1 = l\<lparr>l_connected := False, l_disconnect_since := Some since\<rparr> in
      if \<not> l_failsafe_triggered l \<and> failsafe_timeout \<le> pw_now w - since
      then (let (l2, calls, ok) = apply_state w gpu_window_post l1 in
            (if ok then l2\<lparr>l_failsafe_triggered := True, l_last_state := Some gpu_window_post\<rparr>
             else l2, calls))
      else (l1, []))"

text \<open>The rest of it: reconnection, heartbeat, the resume in the background, the state.\<close>

definition reconnect :: "listener \<Rightarrow> listener" where
  "reconnect l =
     (if l_connected l then l
      else (let l1 = l\<lparr>l_connected := True, l_disconnect_since := None\<rparr> in
            if l_failsafe_triggered l
            then l1\<lparr>l_failsafe_triggered := False, l_last_state := None\<rparr> else l1))"

definition heartbeat :: "poll_world \<Rightarrow> status_report option" where
  "heartbeat w = map_option (report_of (pw_time w)) (pw_status w)"

definition check_resume :: "poll_world \<Rightarrow> listener \<Rightarrow> listener" where
  "check_resume w l =
     (if l_resume_future l
      then (case pw_resume_done w of
              None \<Rightarrow> l
            | Some exc \<Rightarrow>
                (let l1 = l\<lparr>l_resume_future := False\<rparr> in
                 if exc \<noteq> None \<and> l_last_state l = Some gpu_available
                 then l1\<lparr>l_last_state := None\<rparr> else l1))
      else l)"

definition poll_state :: "poll_world \<Rightarrow> int \<Rightarrow> listener \<Rightarrow> listener \<times> engine_call list" where
  "poll_state w state l =
     (if Some state = l_last_state l then (l, [])
      else (let (l1, calls, ok) = apply_state w state l in
            (if ok then l1\<lparr>l_last_state := Some state\<rparr> else l1, calls)))"

definition poll :: "poll_world \<Rightarrow> listener \<Rightarrow> listener \<times> engine_call list \<times> status_report option" where
  "poll w l =
     (case pw_schedule w of
        None \<Rightarrow> (let (l1, calls) = poll_disconnected w l in (l1, calls, None))
      | Some s \<Rightarrow>
          (let (l1, calls) = poll_state w (gs_state s) (check_resume w (reconnect l)) in
           (l1, calls, heartbeat w)))"

text \<open>The thread's loop: one poll after the other, with the calls in order.\<close>

fun polls :: "poll_world list \<Rightarrow> listener \<Rightarrow> listener \<times> engine_call list" where
  "polls [] l = (l, [])"
| "polls (w # ws) l =
     (let (l1, calls, _) = poll w l; (l2, calls') = polls ws l1 in (l2, calls @ calls'))"

lemma polls_append:
  "polls (vs @ ws) l =
     (fst (polls ws (fst (polls vs l))), snd (polls vs l) @ snd (polls ws (fst (polls vs l))))"
  by (induction vs arbitrary: l) (simp_all add: case_prod_unfold Let_def)

section \<open>Properties of one poll\<close>

lemmas poll_defs =
  poll_def poll_disconnected_def poll_state_def apply_state_def reconnect_def check_resume_def
  Let_def

text \<open>
  A yield the listener has not acted on is sent to the engine, with the urgency of the state;
  the listener remembers it only once the pause is acknowledged.
\<close>

lemma reconnect_sel [simp]:
  "l_preemptible (reconnect l) = l_preemptible l"
  "l_connected (reconnect l)"
  by (simp_all add: reconnect_def Let_def)

lemma check_resume_sel [simp]:
  "l_preemptible (check_resume w l) = l_preemptible l"
  "l_connected (check_resume w l) = l_connected l"
  "l_disconnect_since (check_resume w l) = l_disconnect_since l"
  "l_failsafe_triggered (check_resume w l) = l_failsafe_triggered l"
  "l_last_state (check_resume w l) \<in> {None, l_last_state l}"
  by (simp_all add: check_resume_def Let_def split: option.splits)

lemma reconnect_last: "l_last_state (reconnect l) \<in> {None, l_last_state l}"
  by (simp add: reconnect_def Let_def)

lemma pending_yield:
  assumes "pw_schedule w = Some s" and "gs_state s \<in> yield_states"
    and "l_last_state (check_resume w (reconnect l)) \<noteq> Some (gs_state s)"
  shows "fst (snd (poll w l)) =
      (if l_preemptible l then [RequestPause] else []) @
      [Pause (urgency_of_state (gs_state s)) (pw_pause_ok w)] \<and>
    (l_last_state (fst (poll w l)) = Some (gs_state s) \<longleftrightarrow> pw_pause_ok w)"
proof -
  have "gs_state s \<noteq> gpu_available"
    using assms(2) by (auto simp: yield_states_def gpu_states)
  then show ?thesis
    using assms by (auto simp: poll_def poll_state_def apply_state_def Let_def)
qed

text \<open>Nothing is sent while the schedule stays what the listener has applied.\<close>

lemma steady_poll:
  assumes "pw_schedule w = Some s" and "l_last_state (check_resume w (reconnect l)) = Some (gs_state s)"
  shows "fst (snd (poll w l)) = [] \<and> l_last_state (fst (poll w l)) = Some (gs_state s)"
  using assms by (simp add: poll_def poll_state_def)

lemma failsafe_poll:
  assumes "pw_schedule w = None" and "l_disconnect_since l = Some t" and "\<not> l_failsafe_triggered l"
    and "failsafe_timeout \<le> pw_now w - t"
  shows "fst (snd (poll w l)) =
      (if l_preemptible l then [RequestPause] else []) @ [Pause IMMEDIATE (pw_pause_ok w)] \<and>
    l_failsafe_triggered (fst (poll w l)) = pw_pause_ok w"
proof -
  have "urgency_of_state gpu_window_post = IMMEDIATE" "gpu_window_post \<in> yield_states"
    "gpu_window_post \<noteq> gpu_available"
    by (simp_all add: urgency_of_state_def yield_states_def gpu_states)
  then show ?thesis
    using assms by (simp add: poll_def poll_disconnected_def apply_state_def Let_def)
qed

section \<open>Invariants of the listener\<close>

definition listener_inv :: "listener \<Rightarrow> bool" where
  "listener_inv l \<longleftrightarrow>
     (l_disconnect_since l = None \<longleftrightarrow> l_connected l) \<and>
     (l_failsafe_triggered l \<longrightarrow> \<not> l_connected l \<and> l_last_state l = Some gpu_window_post)"

lemma listener_inv_init: "listener_inv (listener_init b)"
  by (simp add: listener_inv_def listener_init_def)

lemma apply_state_sel:
  assumes "apply_state w state l = (l', calls, ok)"
  shows "l_last_state l' = l_last_state l" "l_connected l' = l_connected l"
    "l_disconnect_since l' = l_disconnect_since l"
    "l_failsafe_triggered l' = l_failsafe_triggered l" "l_preemptible l' = l_preemptible l"
  using assms by (auto simp: apply_state_def Let_def split: if_splits)

lemma poll_connected:
  assumes "pw_schedule w = Some s"
  shows "l_connected (fst (poll w l))"
proof -
  obtain l' calls ok where "apply_state w (gs_state s) (check_resume w (reconnect l)) = (l', calls, ok)"
    by (cases "apply_state w (gs_state s) (check_resume w (reconnect l))") auto
  with apply_state_sel(2)[OF this] assms show ?thesis by (simp add: poll_def poll_state_def)
qed

lemma poll_listener_inv:
  assumes "listener_inv l"
  shows "listener_inv (fst (poll w l))"
proof (cases "pw_schedule w")
  case None
  then show ?thesis
    using assms
    by (auto simp: poll_def poll_disconnected_def listener_inv_def Let_def
        dest: apply_state_sel split: prod.splits option.splits)
next
  case (Some s)
  let ?l = "check_resume w (reconnect l)"
  have c: "l_connected ?l" "l_disconnect_since ?l = None" "\<not> l_failsafe_triggered ?l"
    using assms by (auto simp: listener_inv_def reconnect_def Let_def)
  have "listener_inv (fst (poll_state w st ?l))" for st
    using c by (auto simp: poll_state_def listener_inv_def dest: apply_state_sel split: prod.splits)
  with Some show ?thesis by (simp add: poll_def Let_def case_prod_unfold)
qed

section \<open>The listener and the engine\<close>

text \<open>
  The history of calls shows the engine paused: an acknowledged pause with no resume after it.
\<close>

fun paused_since :: "engine_call list \<Rightarrow> bool" where
  "paused_since [] = False"
| "paused_since (c # h) =
     (paused_since h \<or> ((\<exists>u. c = Pause u True) \<and> Resume \<notin> set h))"

lemma paused_since_append:
  "paused_since (h @ h') \<longleftrightarrow> paused_since h' \<or> (paused_since h \<and> Resume \<notin> set h')"
  by (induction h) auto

lemma apply_state_calls:
  assumes "apply_state w state l = (l', calls, ok)"
  shows "(state \<in> yield_states \<and> ok \<longrightarrow> paused_since calls) \<and>
    (Resume \<in> set calls \<longrightarrow> state = gpu_available \<and> ok)"
  using assms
  by (auto simp: apply_state_def Let_def yield_states_def gpu_states split: if_splits)

definition in_sync :: "listener \<Rightarrow> engine_call list \<Rightarrow> bool" where
  "in_sync l h \<longleftrightarrow> (\<forall>st \<in> yield_states. l_last_state l = Some st \<longrightarrow> paused_since h)"

lemma in_sync_apply:
  assumes "apply_state w state l = (l', calls, ok)" and "in_sync l h"
  shows "in_sync (if ok then l'\<lparr>l_last_state := Some state\<rparr> else l') (h @ calls)"
proof -
  note c = apply_state_calls[OF assms(1)] and sel = apply_state_sel(1)[OF assms(1)]
  have "gpu_available \<notin> yield_states" by (simp add: yield_states_def gpu_states)
  with c sel assms(2) show ?thesis
    by (auto simp: in_sync_def paused_since_append)
qed

lemma poll_in_sync:
  assumes "in_sync l h"
  shows "in_sync (fst (poll w l)) (h @ fst (snd (poll w l)))"
proof (cases "pw_schedule w")
  case None
  let ?since = "case l_disconnect_since l of None \<Rightarrow> pw_now w | Some t \<Rightarrow> t"
  let ?l = "l\<lparr>l_connected := False, l_disconnect_since := Some ?since\<rparr>"
  obtain l' calls ok where ap: "apply_state w gpu_window_post ?l = (l', calls, ok)"
    by (cases "apply_state w gpu_window_post ?l") auto
  have "in_sync ?l h" using assms by (simp add: in_sync_def)
  from in_sync_apply[OF ap this]
  have "in_sync (if ok then l'\<lparr>l_failsafe_triggered := True, l_last_state := Some gpu_window_post\<rparr>
      else l') (h @ calls)"
    by (simp add: in_sync_def split: if_splits)
  with None ap assms show ?thesis
    by (auto simp: poll_def poll_disconnected_def Let_def in_sync_def)
next
  case (Some s)
  let ?l = "check_resume w (reconnect l)"
  have sync: "in_sync ?l h"
    using assms check_resume_sel(5)[of w "reconnect l"] reconnect_last[of l]
    by (auto simp: in_sync_def)
  obtain l' calls ok where ap: "apply_state w (gs_state s) ?l = (l', calls, ok)"
    by (cases "apply_state w (gs_state s) ?l") auto
  from in_sync_apply[OF ap sync] Some ap sync show ?thesis
    by (auto simp: poll_def poll_state_def)
qed

lemma polls_in_sync:
  assumes "in_sync l h"
  shows "in_sync (fst (polls ws l)) (h @ snd (polls ws l))"
  using assms
proof (induction ws arbitrary: l h)
  case (Cons w ws)
  from poll_in_sync[OF Cons.prems, of w]
  show ?case using Cons.IH by (fastforce split: prod.splits)
qed simp

lemma in_sync_init: "in_sync (listener_init b) []"
  by (simp add: in_sync_def listener_init_def)

text \<open>
  What a call does to the engine; \<open>request\<close> is its synchronous \<open>request_pause\<close>.  A pause
  that is not acknowledged may still take effect or not; a resume succeeds or leaves the engine
  as it was.  Calls take effect in the order they are dispatched; what a request does to a
  resume that is still under way is the subject of \<open>Pool_Loop\<close>.
\<close>

inductive effect :: "'e engine_ops \<Rightarrow> ('e \<Rightarrow> 'e) \<Rightarrow> 'e \<Rightarrow> engine_call \<Rightarrow> 'e \<Rightarrow> bool"
  for ops :: "'e engine_ops" and request :: "'e \<Rightarrow> 'e" where
  eff_request: "effect ops request e RequestPause (request e)"
| eff_pause: "effect ops request e (Pause u ok) (fst (op_pause ops u e))"
| eff_lost: "effect ops request e (Pause u False) e"
| eff_resume: "snd (op_resume ops e) = Inr () \<Longrightarrow>
    effect ops request e Resume (fst (op_resume ops e))"
| eff_no_resume: "effect ops request e Resume e"

inductive effects :: "'e engine_ops \<Rightarrow> ('e \<Rightarrow> 'e) \<Rightarrow> 'e \<Rightarrow> engine_call list \<Rightarrow> 'e \<Rightarrow> bool"
  for ops :: "'e engine_ops" and request :: "'e \<Rightarrow> 'e" where
  effs_nil: "effects ops request e [] e"
| effs_cons: "effect ops request e c e' \<Longrightarrow> effects ops request e' cs e'' \<Longrightarrow>
    effects ops request e (c # cs) e''"

inductive_cases effectE: "effect ops request e c e'"
inductive_cases effects_NilE: "effects ops request e [] e'"
inductive_cases effects_ConsE: "effects ops request e (c # cs) e'"

text \<open>What the listener relies on: a request only asks, so nothing observable changes yet.\<close>

locale preemptible_engine = engine_contract ops ok
  for ops :: "'e engine_ops" and ok :: "'e \<Rightarrow> bool" +
  fixes request :: "'e \<Rightarrow> 'e"
  assumes ok_request: "ok e \<Longrightarrow> ok (request e)"
    and request_available: "ok e \<Longrightarrow> op_available ops (request e) = op_available ops e"
begin

lemma effect_ok: "effect ops request e c e' \<Longrightarrow> ok e \<Longrightarrow> ok e'"
  by (erule effectE) (auto intro: ok_pause ok_resume ok_request)

lemma effects_ok: "effects ops request e cs e' \<Longrightarrow> ok e \<Longrightarrow> ok e'"
  by (induction rule: effects.induct) (auto intro: effect_ok)

lemma effect_stays_down:
  assumes "effect ops request e c e'" and "ok e" and "\<not> op_available ops e" and "c \<noteq> Resume"
  shows "\<not> op_available ops e'"
  using assms(1)
  by (rule effectE) (use assms pause_unavailable request_available in auto)

lemma effects_stay_down:
  "effects ops request e cs e' \<Longrightarrow> ok e \<Longrightarrow> \<not> op_available ops e \<Longrightarrow> Resume \<notin> set cs \<Longrightarrow>
   \<not> op_available ops e'"
proof (induction rule: effects.induct)
  case (effs_cons e c e' cs e'')
  then show ?case using effect_ok effect_stays_down by auto
qed

lemma paused_since_down:
  "effects ops request e h e' \<Longrightarrow> ok e \<Longrightarrow> paused_since h \<Longrightarrow> \<not> op_available ops e'"
proof (induction rule: effects.induct)
  case (effs_cons e c e' cs e'')
  have ok': "ok e'" using effs_cons.hyps(1) effs_cons.prems(1) by (rule effect_ok)
  show ?case
  proof (cases "paused_since cs")
    case True
    with effs_cons.IH ok' show ?thesis by blast
  next
    case False
    with effs_cons.prems obtain u where c: "c = Pause u True" "Resume \<notin> set cs" by auto
    with effs_cons.hyps(1) have "e' = fst (op_pause ops u e)" by (auto elim: effectE)
    with effs_cons.prems have "\<not> op_available ops e'" by (simp add: pause_unavailable)
    with effs_cons.hyps(2) ok' c show ?thesis using effects_stay_down by blast
  qed
qed simp

text \<open>Whenever the listener holds that the GPU is yielded, the engine accepts nothing.\<close>

lemma yielded_engine_down:
  assumes "effects ops request e (snd (polls ws (listener_init b))) e'" and "ok e"
    and "l_last_state (fst (polls ws (listener_init b))) = Some st" and "st \<in> yield_states"
  shows "\<not> op_available ops e'"
  using polls_in_sync[OF in_sync_init, of ws b] assms paused_since_down
  by (simp add: in_sync_def)

end

text \<open>A pool has the method, a single engine has not (the listener then sends no request).\<close>

context pool_of_engines
begin

lemma pool_preemptible: "preemptible_engine (pool_ops ops) (pool_ok ok) request_pause"
proof unfold_locales
  fix p assume "pool_ok ok p"
  then show "pool_ok ok (request_pause p)" by (simp add: pool_ok_def request_pause_def)
  show "op_available (pool_ops ops) (request_pause p) = op_available (pool_ops ops) p"
    by (simp add: pool_ops_def pool_is_available_def first_engine_def request_pause_def)
qed

end

sublocale pool_of_engines \<subseteq> preempt: preemptible_engine "pool_ops ops" "pool_ok ok" request_pause
  by (rule pool_preemptible)

interpretation vllm_alone: preemptible_engine "vllm_ops w" vllm_settled "\<lambda>e. e" for w
  by unfold_locales simp_all

section \<open>Retries\<close>

text \<open>A yield is retried poll after poll until a pause is acknowledged.\<close>

text \<open>A yield state that the sidecar keeps reporting stays the remembered one.\<close>

lemma yield_remembered:
  assumes "l_last_state (reconnect l) = Some st" and "l_connected l" and "st \<in> yield_states"
    and "\<forall>w \<in> set ws. \<exists>s. pw_schedule w = Some s \<and> gs_state s = st"
  shows "l_last_state (fst (polls ws l)) = Some st"
  using assms(1,2,4)
proof (induction ws arbitrary: l)
  case Nil
  then show ?case by (simp add: reconnect_def)
next
  case (Cons w ws)
  then obtain s where s: "pw_schedule w = Some s" "gs_state s = st" by auto
  have "st \<noteq> gpu_available" using assms(3) by (auto simp: yield_states_def gpu_states)
  with Cons.prems(1) have "l_last_state (check_resume w (reconnect l)) = Some st"
    by (simp add: check_resume_def Let_def split: option.split)
  with s have *: "l_last_state (fst (poll w l)) = Some st" "l_connected (fst (poll w l))"
    using steady_poll[OF s(1), of l] Cons.prems(2)
    by (simp_all add: poll_def poll_state_def reconnect_def)
  then have "l_last_state (reconnect (fst (poll w l))) = Some st" by (simp add: reconnect_def)
  with Cons.IH[of "fst (poll w l)"] * Cons.prems(3) show ?case
    by (simp add: case_prod_unfold Let_def)
qed

lemma yield_retried:
  assumes "\<forall>w \<in> set ws. \<exists>s. pw_schedule w = Some s \<and> gs_state s = st"
    and "st \<in> yield_states" and "\<exists>w \<in> set ws. pw_pause_ok w"
  shows "l_last_state (fst (polls ws l)) = Some st"
  using assms(1,3)
proof (induction ws arbitrary: l)
  case (Cons w ws)
  then obtain s where s: "pw_schedule w = Some s" "gs_state s = st" by auto
  show ?case
  proof (cases "pw_pause_ok w")
    case True
    have "l_last_state (fst (poll w l)) = Some st"
      using pending_yield[OF s(1), of l] steady_poll[OF s(1), of l] True s(2) assms(2) by blast
    moreover have conn: "l_connected (fst (poll w l))" using s(1) by (rule poll_connected)
    ultimately have "l_last_state (reconnect (fst (poll w l))) = Some st"
      by (simp add: reconnect_def)
    with yield_remembered[OF _ conn assms(2), of ws] Cons.prems(1) show ?thesis
      by (simp add: case_prod_unfold Let_def)
  next
    case False
    with Cons.prems(2) have "\<exists>w \<in> set ws. pw_pause_ok w" by auto
    with Cons.IH Cons.prems(1) show ?thesis by (simp add: case_prod_unfold Let_def)
  qed
qed simp

text \<open>
  The fail-safe fires once: over polls that all fail while pauses are acknowledged, the calls
  are one immediate pause, from the first poll that lies a minute after the first failure.
\<close>

lemma failsafe_done:
  assumes "\<forall>w \<in> set ws. pw_schedule w = None" and "l_failsafe_triggered l"
  shows "snd (polls ws l) = []"
  using assms
  by (induction ws arbitrary: l)
     (simp_all add: poll_def poll_disconnected_def Let_def case_prod_unfold)

lemma failsafe_pauses_once:
  assumes "\<forall>w \<in> set ws. pw_schedule w = None \<and> pw_pause_ok w"
    and "l_disconnect_since l = Some t" and "\<not> l_failsafe_triggered l"
  shows "snd (polls ws l) =
    (if \<exists>w \<in> set ws. failsafe_timeout \<le> pw_now w - t
     then (if l_preemptible l then [RequestPause] else []) @ [Pause IMMEDIATE True] else [])"
  using assms
proof (induction ws arbitrary: l)
  case (Cons w ws)
  show ?case
  proof (cases "failsafe_timeout \<le> pw_now w - t")
    case True
    with failsafe_poll[of w l t] Cons.prems
    have "fst (snd (poll w l)) =
        (if l_preemptible l then [RequestPause] else []) @ [Pause IMMEDIATE True]"
      "l_failsafe_triggered (fst (poll w l))" by simp_all
    with failsafe_done[of ws "fst (poll w l)"] Cons.prems(1) True show ?thesis
      by (simp add: case_prod_unfold Let_def)
  next
    case False
    with Cons.prems have "poll w l =
        (l\<lparr>l_connected := False, l_disconnect_since := Some t\<rparr>, [], None)"
      by (simp add: poll_def poll_disconnected_def)
    with Cons.IH[of "l\<lparr>l_connected := False, l_disconnect_since := Some t\<rparr>"] Cons.prems False
    show ?thesis by simp
  qed
qed simp

section \<open>A resume that is never sent\<close>

text \<open>
  After AVAILABLE a yield arrives whose pause is not acknowledged in time (it still takes
  effect), and the scheduler is back at AVAILABLE at the next poll: the listener still holds
  AVAILABLE as applied and sends nothing, however often it polls.
\<close>

definition answer :: "int \<Rightarrow> bool \<Rightarrow> poll_world" where
  "answer state pause_ok =
     \<lparr>pw_schedule = Some \<lparr>gs_state = state, gs_seconds_until_next_change = 0, gs_message = []\<rparr>,
      pw_now = 0, pw_pause_ok = pause_ok, pw_dispatch_ok = True, pw_resume_done = Some None,
      pw_status = None, pw_time = 0\<rparr>"

lemma steady_available:
  assumes "l_last_state l = Some gpu_available" and "l_connected l" and "\<not> l_resume_future l"
  shows "polls (replicate n (answer gpu_available True)) l = (l, [])"
proof (induction n)
  case (Suc n)
  have "poll (answer gpu_available True) l = (l, [], None)"
    using assms
    by (simp add: poll_def poll_state_def reconnect_def check_resume_def answer_def heartbeat_def)
  with Suc show ?case by simp
qed simp

lemma missed_resume:
  "snd (polls (answer gpu_available True # answer gpu_yielding False #
       replicate n (answer gpu_available True)) (listener_init True)) =
   [Resume, RequestPause, Pause NORMAL False]"
proof -
  let ?l = "(listener_init True)\<lparr>l_last_state := Some gpu_available\<rparr>"
  have 1: "poll (answer gpu_available True) (listener_init True) =
      (?l\<lparr>l_resume_future := True\<rparr>, [Resume], None)"
    by (simp add: poll_defs answer_def heartbeat_def listener_init_def)
  have 2: "poll (answer gpu_yielding False) (?l\<lparr>l_resume_future := True\<rparr>) =
      (?l, [RequestPause, Pause NORMAL False], None)"
    by (simp add: poll_defs answer_def heartbeat_def listener_init_def yield_states_def
      urgency_of_state_def gpu_states)
  have "polls (replicate n (answer gpu_available True)) ?l = (?l, [])"
    by (rule steady_available) (simp_all add: listener_init_def)
  with 1 2 show ?thesis by simp
qed

section \<open>Startup\<close>

text \<open>
  \<open>main\<close> asks the scheduler before the engine is touched: the model is loaded only when the
  GPU is available, else the engine comes up paused (\<open>None\<close>: the scheduler was not reached).
\<close>

definition startup :: "'e engine_ops \<Rightarrow> gpu_schedule option \<Rightarrow> string \<Rightarrow> 'e meth" where
  "startup ops schedule path e =
     (if \<exists>s. schedule = Some s \<and> schedule_is_available s then op_start ops path e
      else (op_start_paused ops path e, Inr ()))"

context engine_contract
begin

lemma startup_respects_mining:
  assumes "ok e" and "op_state ops e = STOPPED"
  shows "ok (fst (startup ops schedule path e))"
    and "op_available ops (fst (startup ops schedule path e)) \<Longrightarrow>
      \<exists>s. schedule = Some s \<and> gs_state s = gpu_available"
proof -
  show "ok (fst (startup ops schedule path e))"
    using assms by (simp add: startup_def ok_start ok_start_paused)
  show "\<exists>s. schedule = Some s \<and> gs_state s = gpu_available"
    if "op_available ops (fst (startup ops schedule path e))"
    using that assms
    by (auto simp: startup_def schedule_is_available_def available ok_start_paused start_paused
        split: if_splits)
qed

end

end
