(* ===== verification/Api_Server.thy ===== *)
theory Api_Server
  imports Listener Generation Receipt
begin

text \<open>
  The REST server of \<open>inference/api_server.py\<close>: authentication, limits, the switch of the
  model on demand, the two completion handlers with their error mapping and receipts, the
  event stream, and the informational endpoints.

  A handler is a function of the engine's state and of what its awaits do and return.  The
  request's bytes are hashed by a parameter \<open>sha\<close>; the engine's \<open>generate\<close> comes in as a state
  passing function, the model manager's \<open>ensure_model\<close> and the receipt signer as their results.
\<close>

section \<open>Helpers\<close>

text \<open>\<open>s.encode("utf-8")\<close> of a string of code points below 256.\<close>

definition utf8_char :: "char \<Rightarrow> string" where
  "utf8_char c =
     (let n = (of_char c :: nat) in
      if n < 128 then [c] else [char_of (192 + n div 64), char_of (128 + n mod 64)])"

definition utf8 :: "string \<Rightarrow> string" where
  "utf8 s = concat (map utf8_char s)"

definition codes :: "string \<Rightarrow> code_points" where
  "codes s = map of_char s"

record chat_message =
  cm_role :: string
  cm_content :: string

text \<open>A header that is absent is \<open>None\<close>; names are looked up case-insensitively.\<close>

type_synonym headers = "string \<Rightarrow> string option"

definition truthy :: "string option \<Rightarrow> bool" where
  "truthy s \<longleftrightarrow> s \<noteq> None \<and> s \<noteq> Some []"

definition session_parts :: "chat_message list option \<Rightarrow> string option \<Rightarrow> string list" where
  "session_parts messages prompt =
     (case messages of
        Some (m # ms) \<Rightarrow> map (\<lambda>m. cm_role m @ '':'' @ cm_content m) (take 2 (m # ms))
      | _ \<Rightarrow> (case prompt of Some (c # cs) \<Rightarrow> [''p:'' @ (c # cs)] | _ \<Rightarrow> []))"

definition engine_session_key ::
  "(string \<Rightarrow> string) \<Rightarrow> headers \<Rightarrow> chat_message list option \<Rightarrow> string option \<Rightarrow> string option" where
  "engine_session_key sha hdr messages prompt =
     (if truthy (hdr ''x-session-id'') then Some (''h:'' @ the (hdr ''x-session-id''))
      else (let parts = session_parts messages prompt in
            if parts = [] then None
            else Some (''m:'' @ take 32 (sha (utf8 (join_with [CHR 0x0A] parts))))))"

definition is_context_length_error :: "string \<Rightarrow> bool" where
  "is_context_length_error message =
     (let msg = lower message in
      str_contains ''context length'' msg \<or> str_contains ''longer than the maximum'' msg \<or>
      str_contains ''maximum model length'' msg \<or> str_contains ''max_model_len'' msg \<or>
      (str_contains ''prompt'' msg \<and> str_contains ''too long'' msg))"

text \<open>\<open>_model_matches\<close>: the last path components are compared.\<close>

definition last_component :: "string \<Rightarrow> string" where
  "last_component s =
     last (split_on CHR ''/'' (rstrip_char CHR ''/'' (replace_char backslash ''/'' s)))"

definition cache_name :: "string \<Rightarrow> string" where
  "cache_name model = replace_char CHR ''/'' ''--'' model"

definition model_matches :: "string \<Rightarrow> string \<Rightarrow> bool" where
  "model_matches current requested \<longleftrightarrow>
     current \<noteq> [] \<and>
     (current = requested \<or> last_component current = last_component (cache_name requested))"

definition retry_after_for_state :: "engine_state \<Rightarrow> string" where
  "retry_after_for_state state = (if state = LOADING then ''15'' else ''60'')"

section \<open>Requests and replies\<close>

record completion_args =
  ca_model :: string
  ca_max_tokens :: int
  ca_temperature :: rat
  ca_top_p :: rat
  ca_stop :: stop_arg
  ca_continuation :: "string option"

text \<open>The ranges the request models declare; a request outside them is refused with 422.\<close>

definition valid_args :: "completion_args \<Rightarrow> bool" where
  "valid_args a \<longleftrightarrow>
     0 < ca_max_tokens a \<and> 0 \<le> ca_temperature a \<and> ca_temperature a \<le> 2 \<and>
     0 < ca_top_p a \<and> ca_top_p a \<le> 1"

record usage =
  us_prompt_tokens :: int
  us_completion_tokens :: int
  us_total_tokens :: int
  us_cached_tokens :: int

definition usage_of :: "int \<Rightarrow> int \<Rightarrow> int \<Rightarrow> usage" where
  "usage_of p c k =
     \<lparr>us_prompt_tokens = p, us_completion_tokens = c, us_total_tokens = p + c,
      us_cached_tokens = k\<rparr>"

record completion =
  co_model :: string
  co_text :: string
  co_finish_reason :: string
  co_usage :: usage
  co_receipt :: receipt                 \<comment> \<open>the header \<open>X-OM-Receipt\<close>\<close>

text \<open>
  A reply with status 200, an \<open>HTTPException\<close>, the 503 of a yielded GPU (its message and
  \<open>Retry-After\<close>), or an exception the handler lets through (a bare 500).
\<close>

datatype 'a reply =
  Ok 'a | HttpError int string | Yielded string string | Crash py_exn

record api_config =
  ap_api_token :: string
  ap_max_tokens_limit :: int
  ap_has_manager :: bool

section \<open>Guards\<close>

text \<open>
  \<open>hmac.compare_digest\<close> of two strings compares them in constant time and raises
  \<open>TypeError\<close> unless both are ASCII.
\<close>

definition compare_digest :: "string \<Rightarrow> string \<Rightarrow> bool result" where
  "compare_digest a b =
     (if ascii a \<and> ascii b then Inr (a = b)
      else Inl (TypeError ''comparing strings with non-ASCII characters is not supported''))"

definition require_auth :: "api_config \<Rightarrow> headers \<Rightarrow> unit result" where
  "require_auth cfg hdr =
     (if ap_api_token cfg = [] then Inr ()
      else bind_result
        (compare_digest (case hdr ''authorization'' of None \<Rightarrow> '''' | Some h \<Rightarrow> h)
           (''Bearer '' @ ap_api_token cfg))
        (\<lambda>same. if same then Inr ()
                else Inl (HTTPException 401 ''invalid or missing Authorization'')))"

definition check_max_tokens :: "api_config \<Rightarrow> int \<Rightarrow> unit result" where
  "check_max_tokens cfg n =
     (if ap_max_tokens_limit cfg > 0 \<and> n > ap_max_tokens_limit cfg
      then Inl (HTTPException 400 (''max_tokens '' @ str_int n @ '' exceeds limit '' @
                 str_int (ap_max_tokens_limit cfg)))
      else Inr ())"

text \<open>
  \<open>_ensure_model_loaded\<close>; \<open>ensure\<close> is the manager's answer.  The check is repeated under
  the switch lock, where \<open>e\<close> may be a later state of the engine than at the first check.
\<close>

definition switch_locked ::
  "'e engine_ops \<Rightarrow> (string \<Rightarrow> string result) \<Rightarrow> string \<Rightarrow> 'e meth" where
  "switch_locked ops ensure requested e =
     (if model_matches (op_model ops e) requested then (e, Inr ())
      else case ensure requested of
             Inl x \<Rightarrow> (e, Inl x)
           | Inr path \<Rightarrow> op_switch ops path e)"

definition ensure_model_loaded ::
  "'e engine_ops \<Rightarrow> api_config \<Rightarrow> (string \<Rightarrow> string result) \<Rightarrow> string \<Rightarrow> ('e \<Rightarrow> 'e) \<Rightarrow> 'e meth" where
  "ensure_model_loaded ops cfg ensure requested wait_lock e =
     (if \<not> ap_has_manager cfg then (e, Inr ())
      else if requested = ''default'' then (e, Inr ())
      else if model_matches (op_model ops e) requested then (e, Inr ())
      else switch_locked ops ensure requested (wait_lock e))"

section \<open>The completion handlers\<close>

definition message_of :: "py_exn \<Rightarrow> string" where
  "message_of x =
     (case x of
        RuntimeError m \<Rightarrow> m | ValueError m \<Rightarrow> m | TypeError m \<Rightarrow> m | IndexError m \<Rightarrow> m
      | KeyError m \<Rightarrow> m | AttributeError m \<Rightarrow> m | OSError m \<Rightarrow> m | HTTPException c m \<Rightarrow> m
      | EngineDead m \<Rightarrow> m | OtherExn ty m \<Rightarrow> m | _ \<Rightarrow> [])"

definition yielded :: "engine_state \<Rightarrow> bool \<Rightarrow> 'a reply" where
  "yielded state switching =
     Yielded (''GPU yielded to mining ('' @
         (if switching then ''switching model'' else state_value state) @ ''). Retry later.'')
       (retry_after_for_state state)"

definition with_continuation :: "string \<Rightarrow> string option \<Rightarrow> string" where
  "with_continuation prompt cont = (case cont of None \<Rightarrow> prompt | Some c \<Rightarrow> prompt @ c)"

definition chat_prompt :: "chat_message list \<Rightarrow> string" where
  "chat_prompt ms = join_with [CHR 0x0A] (map (\<lambda>m. cm_role m @ '': '' @ cm_content m) ms)"

text \<open>The part both handlers share: what \<open>generate\<close> raised or returned, to the reply.\<close>

definition finish_completion ::
  "(code_points \<Rightarrow> code_points \<Rightarrow> int \<Rightarrow> int \<Rightarrow> int \<Rightarrow> receipt result) \<Rightarrow>
   (string \<Rightarrow> string) \<Rightarrow> string \<Rightarrow> generate_result result \<Rightarrow> completion reply" where
  "finish_completion mk_receipt sha model res =
     (case res of
        Inl (RuntimeError m) \<Rightarrow> HttpError 503 m
      | Inl (ValueError m) \<Rightarrow>
          if is_context_length_error m then HttpError 400 (''context length exceeded: '' @ m)
          else Crash (ValueError m)
      | Inl x \<Rightarrow> Crash x
      | Inr g \<Rightarrow>
          (case mk_receipt (codes model) (codes (sha (utf8 (gr_text g)))) (gr_prompt_tokens g)
                  (gr_completion_tokens g) (gr_cached_tokens g) of
             Inl x \<Rightarrow> Crash x
           | Inr r \<Rightarrow>
               Ok \<lparr>co_model = model, co_text = gr_text g, co_finish_reason = gr_finish_reason g,
                  co_usage = usage_of (gr_prompt_tokens g) (gr_completion_tokens g)
                    (gr_cached_tokens g),
                  co_receipt = r\<rparr>))"

text \<open>
  What the world supplies to one request: the manager's answer, the engine's state when the
  switch lock is granted, whether the lock is held when the availability is read, what
  \<open>generate\<close> does and returns for a prompt and session, and the signer with the clock.
\<close>

record ('e, 'k) request_world =
  rw_ensure :: "string \<Rightarrow> string result"
  rw_wait_lock :: "'e \<Rightarrow> 'e"
  rw_lock_held :: bool
  rw_generate :: "string \<Rightarrow> string option \<Rightarrow> completion_args \<Rightarrow> 'e \<Rightarrow> 'e \<times> generate_result result"
  rw_stream :: "string \<Rightarrow> string option \<Rightarrow> completion_args \<Rightarrow> 'e \<Rightarrow> 'e \<times> stream_chunk list \<times> py_exn option"
  rw_crypto :: "'k crypto"
  rw_signer :: "'k signer result"
  rw_time :: rat

text \<open>
  The guards in the order of the handler; \<open>Inl\<close> is a reply that ends it.  FastAPI runs the
  dependency that checks the token first, then the validation of the body.  An engine that
  exits the process in the switch leaves no reply at all.
\<close>

definition guard_request ::
  "'e engine_ops \<Rightarrow> api_config \<Rightarrow> ('e, 'k) request_world \<Rightarrow> headers \<Rightarrow> completion_args \<Rightarrow> 'e \<Rightarrow>
   'e \<times> ('a reply + unit)" where
  "guard_request ops cfg w hdr args e =
     (case require_auth cfg hdr of
        Inl (HTTPException c m) \<Rightarrow> (e, Inl (HttpError c m))
      | Inl x \<Rightarrow> (e, Inl (Crash x))
      | Inr _ \<Rightarrow>
     if \<not> valid_args args then (e, Inl (HttpError 422 ''validation error''))
     else
     (case check_max_tokens cfg (ca_max_tokens args) of
        Inl (HTTPException c m) \<Rightarrow> (e, Inl (HttpError c m))
      | Inl x \<Rightarrow> (e, Inl (Crash x))
      | Inr _ \<Rightarrow>
     (case ensure_model_loaded ops cfg (rw_ensure w) (ca_model args) (rw_wait_lock w) e of
        (e', Inl x) \<Rightarrow>
          (e', Inl (if x = ProcessExit then Crash ProcessExit
                    else HttpError 500 (''Model switch failed: '' @ message_of x)))
      | (e', Inr _) \<Rightarrow>
          if op_available ops e' then (e', Inr ())
          else (e', Inl (yielded (op_state ops e') (rw_lock_held w))))))"

definition receipt_maker ::
  "(string \<Rightarrow> string) \<Rightarrow> ('e, 'k) request_world \<Rightarrow> headers \<Rightarrow> string \<Rightarrow>
   code_points \<Rightarrow> code_points \<Rightarrow> int \<Rightarrow> int \<Rightarrow> int \<Rightarrow> receipt result" where
  "receipt_maker sha w hdr body model osha p c k =
     build_receipt (rw_crypto w) (rw_signer w) (rw_time w)
       (codes (case hdr ''x-request-id'' of None \<Rightarrow> '''' | Some r \<Rightarrow> r)) model
       (codes (sha body)) osha p c k"

text \<open>The awaited \<open>generate\<close> and what follows it; the engine goes on as the call left it.\<close>

definition answer_completion ::
  "(string \<Rightarrow> string) \<Rightarrow> ('e, 'k) request_world \<Rightarrow> headers \<Rightarrow> string \<Rightarrow> string \<Rightarrow> string option \<Rightarrow>
   completion_args \<Rightarrow> 'e \<Rightarrow> 'e \<times> completion reply" where
  "answer_completion sha w hdr body prompt key args e =
     (let (e', res) = rw_generate w (with_continuation prompt (ca_continuation args)) key args e in
      (e', finish_completion (receipt_maker sha w hdr body) sha (ca_model args) res))"

definition chat_completions ::
  "'e engine_ops \<Rightarrow> (string \<Rightarrow> string) \<Rightarrow> api_config \<Rightarrow> ('e, 'k) request_world \<Rightarrow> headers \<Rightarrow> string \<Rightarrow>
   chat_message list \<Rightarrow> completion_args \<Rightarrow> 'e \<Rightarrow> 'e \<times> completion reply" where
  "chat_completions ops sha cfg w hdr body messages args e =
     (case guard_request ops cfg w hdr args e of
        (e', Inl r) \<Rightarrow> (e', r)
      | (e', Inr _) \<Rightarrow>
          answer_completion sha w hdr body (chat_prompt messages)
            (engine_session_key sha hdr (Some messages) None) args e')"

definition completions ::
  "'e engine_ops \<Rightarrow> (string \<Rightarrow> string) \<Rightarrow> api_config \<Rightarrow> ('e, 'k) request_world \<Rightarrow> headers \<Rightarrow> string \<Rightarrow>
   string \<Rightarrow> completion_args \<Rightarrow> 'e \<Rightarrow> 'e \<times> completion reply" where
  "completions ops sha cfg w hdr body prompt args e =
     (case guard_request ops cfg w hdr args e of
        (e', Inl r) \<Rightarrow> (e', r)
      | (e', Inr _) \<Rightarrow>
          answer_completion sha w hdr body prompt (engine_session_key sha hdr None (Some prompt))
            args e')"

section \<open>The event stream\<close>

datatype sse_event =
  SseDelta string | SseFinish string usage | SseReceipt receipt | SseError string | SseDone

definition chunk_event :: "stream_chunk \<Rightarrow> sse_event" where
  "chunk_event c =
     (case sc_finish_reason c of
        None \<Rightarrow> SseDelta (sc_text_delta c)
      | Some r \<Rightarrow> SseFinish r (usage_of (sc_prompt_tokens c) (sc_completion_tokens c)
                    (sc_cached_tokens c)))"

text \<open>The text attested: the deltas of the chunks that do not finish; and the last usage.\<close>

definition delivered_text :: "stream_chunk list \<Rightarrow> string" where
  "delivered_text cs = concat (map sc_text_delta (filter (\<lambda>c. sc_finish_reason c = None) cs))"

definition final_usage :: "stream_chunk list \<Rightarrow> (int \<times> int \<times> int) option" where
  "final_usage cs =
     (case filter (\<lambda>c. sc_finish_reason c \<noteq> None) cs of
        [] \<Rightarrow> None
      | fs \<Rightarrow> Some (sc_prompt_tokens (last fs), sc_completion_tokens (last fs),
                    sc_cached_tokens (last fs)))"

text \<open>
  \<open>sse_generator\<close>: the events, and the exception that breaks the stream off.  A
  \<open>RuntimeError\<close> or \<open>ValueError\<close>, of the engine or of the receipt, becomes an error event.
\<close>

fun sse_close :: "py_exn \<Rightarrow> sse_event list \<times> py_exn option" where
  "sse_close (RuntimeError m) = ([SseError m, SseDone], None)"
| "sse_close (ValueError m) = ([SseError m, SseDone], None)"
| "sse_close x = ([], Some x)"

definition sse_end ::
  "(code_points \<Rightarrow> code_points \<Rightarrow> int \<Rightarrow> int \<Rightarrow> int \<Rightarrow> receipt result) \<Rightarrow> (string \<Rightarrow> string) \<Rightarrow> string \<Rightarrow>
   bool \<Rightarrow> stream_chunk list \<Rightarrow> sse_event list \<times> py_exn option" where
  "sse_end mk_receipt sha model want cs =
     (case (want, final_usage cs) of
        (True, Some (p, c, k)) \<Rightarrow>
          (case mk_receipt (codes model) (codes (sha (utf8 (delivered_text cs)))) p c k of
             Inl x \<Rightarrow> sse_close x
           | Inr r \<Rightarrow> ([SseReceipt r, SseDone], None))
      | _ \<Rightarrow> ([SseDone], None))"

definition sse_generator ::
  "(code_points \<Rightarrow> code_points \<Rightarrow> int \<Rightarrow> int \<Rightarrow> int \<Rightarrow> receipt result) \<Rightarrow> (string \<Rightarrow> string) \<Rightarrow> string \<Rightarrow>
   bool \<Rightarrow> stream_chunk list \<times> py_exn option \<Rightarrow> sse_event list \<times> py_exn option" where
  "sse_generator mk_receipt sha model want stream =
     (let (cs, x) = stream;
          (tail, y) = (case x of None \<Rightarrow> sse_end mk_receipt sha model want cs
                       | Some err \<Rightarrow> sse_close err) in
      (map chunk_event cs @ tail, y))"

definition chat_stream ::
  "'e engine_ops \<Rightarrow> (string \<Rightarrow> string) \<Rightarrow> api_config \<Rightarrow> ('e, 'k) request_world \<Rightarrow> headers \<Rightarrow> string \<Rightarrow>
   chat_message list \<Rightarrow> completion_args \<Rightarrow> 'e \<Rightarrow> 'e \<times> (sse_event list \<times> py_exn option) reply" where
  "chat_stream ops sha cfg w hdr body messages args e =
     (case guard_request ops cfg w hdr args e of
        (e', Inl r) \<Rightarrow> (e', r)
      | (e', Inr _) \<Rightarrow>
          (let (e2, stream) = rw_stream w (with_continuation (chat_prompt messages) (ca_continuation args))
                 (engine_session_key sha hdr (Some messages) None) args e' in
           (e2, Ok (sse_generator (receipt_maker sha w hdr body) sha (ca_model args)
              (hdr ''x-om-receipt-req'' = Some ''1'') stream))))"

section \<open>The informational endpoints\<close>

text \<open>
  \<open>/health\<close>; \<open>detail\<close> is the engine's \<open>detailed_status\<close>, \<open>None\<close> where it has none.
\<close>

record 'd health =
  he_status :: string
  he_engine_state :: string
  he_active_requests :: int
  he_loaded_model :: string
  he_features :: "string list"
  he_receipt_pubkey :: code_points
  he_multi_gpu :: "'d option"

definition health_report ::
  "'e engine_ops \<Rightarrow> ('e \<Rightarrow> 'd) option \<Rightarrow> 'k crypto \<Rightarrow> 'k signer result \<Rightarrow> 'e \<Rightarrow> 'd health result" where
  "health_report ops detail cr signer e =
     bind_result signer (\<lambda>s. Inr
       \<lparr>he_status = (if op_available ops e then ''ok'' else ''unavailable''),
        he_engine_state = state_value (op_state ops e),
        he_active_requests = es_active_requests (op_status ops e),
        he_loaded_model = es_loaded_model (op_status ops e),
        he_features = [''continuation'', ''receipt''],
        he_receipt_pubkey = pubkey_hex cr s,
        he_multi_gpu = map_option (\<lambda>f. f e) detail\<rparr>)"

text \<open>(id, loaded) of each model; the registry is \<open>None\<close> without a manager.\<close>

definition model_rows :: "'e engine_ops \<Rightarrow> string list option \<Rightarrow> 'e \<Rightarrow> (string \<times> bool) list" where
  "model_rows ops registry e =
     (let current = (if es_loaded_model (op_status ops e) = [] then ''none''
                     else es_loaded_model (op_status ops e)) in
      (current, True) #
      (case registry of
         None \<Rightarrow> []
       | Some ids \<Rightarrow> map (\<lambda>i. (i, False)) (filter (\<lambda>i. \<not> suffix (cache_name i) current) ids)))"

definition list_models ::
  "'e engine_ops \<Rightarrow> api_config \<Rightarrow> headers \<Rightarrow> string list option \<Rightarrow> 'e \<Rightarrow> (string \<times> bool) list reply" where
  "list_models ops cfg hdr registry e =
     (case require_auth cfg hdr of
        Inl (HTTPException c m) \<Rightarrow> HttpError c m
      | Inl x \<Rightarrow> Crash x
      | Inr _ \<Rightarrow> Ok (model_rows ops registry e))"

end
