(* ===== verification/Api_Laws.thy ===== *)
theory Api_Laws
  imports Api_Server
begin

text \<open>
  What the handlers guarantee: who gets through, which model answers, how errors are mapped,
  and that the receipt attests what was delivered, streamed or not.
\<close>

section \<open>Getting through\<close>

lemma require_auth_passes:
  "require_auth cfg hdr = Inr () \<longleftrightarrow>
     ap_api_token cfg = [] \<or>
     (ascii (ap_api_token cfg) \<and> hdr ''authorization'' = Some (''Bearer '' @ ap_api_token cfg))"
  by (auto simp: require_auth_def compare_digest_def bind_result_eq_Inr split: option.splits if_splits)

lemma require_auth_outcome:
  assumes "require_auth cfg hdr = Inl x"
  shows "x = HTTPException 401 ''invalid or missing Authorization'' \<or>
    (x = TypeError ''comparing strings with non-ASCII characters is not supported'' \<and>
     \<not> (ascii (ap_api_token cfg) \<and> ascii (case hdr ''authorization'' of None \<Rightarrow> '''' | Some h \<Rightarrow> h)))"
  using assms
  by (auto simp: require_auth_def compare_digest_def bind_result_eq_Inl split: if_splits)

lemma check_max_tokens_passes:
  "check_max_tokens cfg n = Inr () \<longleftrightarrow> ap_max_tokens_limit cfg \<le> 0 \<or> n \<le> ap_max_tokens_limit cfg"
  by (auto simp: check_max_tokens_def)

lemma guard_passes:
  assumes "guard_request ops cfg w hdr args e = (e', Inr u)"
  shows "require_auth cfg hdr = Inr () \<and> valid_args args \<and>
    check_max_tokens cfg (ca_max_tokens args) = Inr () \<and>
    ensure_model_loaded ops cfg (rw_ensure w) (ca_model args) (rw_wait_lock w) e = (e', Inr ()) \<and>
    op_available ops e'"
  using assms
  by (auto simp: guard_request_def split: sum.splits py_exn.splits prod.splits if_splits)

text \<open>A guard never answers itself, so both handlers are the guard followed by the answer.\<close>

lemma guard_not_Ok: "guard_request ops cfg w hdr args e = (e', Inl r) \<Longrightarrow> r \<noteq> Ok c"
  by (auto simp: guard_request_def yielded_def
      split: sum.splits py_exn.splits prod.splits if_splits)

lemma handlers_guarded:
  assumes "chat_completions ops sha cfg w hdr body ms args e = (e', reply) \<or>
      completions ops sha cfg w hdr body prompt args e = (e', reply)"
  obtains g e1 where "guard_request ops cfg w hdr args e = (e1, g)"
    "\<And>r. g = Inl r \<Longrightarrow> reply = r \<and> e' = e1"
    "\<And>u. g = Inr u \<Longrightarrow> \<exists>pr key. answer_completion sha w hdr body pr key args e1 = (e', reply)"
proof -
  obtain e1 g where g: "guard_request ops cfg w hdr args e = (e1, g :: completion reply + unit)"
    by (cases "guard_request ops cfg w hdr args e :: 'a \<times> (completion reply + unit)")
  show thesis
    by (rule that[of e1 g]) (use assms g in \<open>cases g;
      auto simp: chat_completions_def completions_def\<close>)+
qed

text \<open>An answer comes from an engine that was available, by one call of its \<open>generate\<close>.\<close>

lemma handler_answered:
  assumes "chat_completions ops sha cfg w hdr body ms args e = (e', Ok c) \<or>
      completions ops sha cfg w hdr body prompt args e = (e', Ok c)"
  obtains e1 pr key res where
    "guard_request ops cfg w hdr args e = (e1, Inr () :: completion reply + unit)"
    "rw_generate w pr key args e1 = (e', res)"
    "finish_completion (receipt_maker sha w hdr body) sha (ca_model args) res = Ok c"
proof -
  obtain e1 g where g: "guard_request ops cfg w hdr args e = (e1, g :: completion reply + unit)"
    "\<And>r. g = Inl r \<Longrightarrow> Ok c = r"
    "\<And>u. g = Inr u \<Longrightarrow> \<exists>pr key. answer_completion sha w hdr body pr key args e1 = (e', Ok c)"
    using handlers_guarded[OF assms] by metis
  show thesis
  proof (cases g)
    case (Inl r)
    with g guard_not_Ok show thesis by metis
  next
    case (Inr u)
    with g(3) obtain pr key where "answer_completion sha w hdr body pr key args e1 = (e', Ok c)"
      by blast
    with g(1) Inr that show thesis by (auto simp: answer_completion_def split: prod.splits)
  qed
qed

lemma chat_stream_events:
  assumes "chat_stream ops sha cfg w hdr body ms args e = (e', Ok evs)"
  obtains e1 pr key stream where
    "guard_request ops cfg w hdr args e = (e1, Inr () :: (sse_event list \<times> py_exn option) reply + unit)"
    "rw_stream w pr key args e1 = (e', stream)"
    "sse_generator (receipt_maker sha w hdr body) sha (ca_model args)
       (hdr ''x-om-receipt-req'' = Some ''1'') stream = evs"
proof (cases "guard_request ops cfg w hdr args e :: 'a \<times> ((sse_event list \<times> py_exn option) reply + unit)")
  case (Pair e2 g)
  show thesis
  proof (cases g)
    case (Inl r)
    with Pair assms have "r = Ok evs" by (simp add: chat_stream_def)
    with Pair Inl guard_not_Ok show thesis by metis
  next
    case (Inr u)
    with Pair assms that show thesis by (auto simp: chat_stream_def split: prod.splits)
  qed
qed

text \<open>A request that is refused before the engine is touched leaves it as it was.\<close>

lemma guard_refused_early:
  assumes "require_auth cfg hdr \<noteq> Inr () \<or> \<not> valid_args args \<or>
      check_max_tokens cfg (ca_max_tokens args) \<noteq> Inr ()"
  shows "fst (guard_request ops cfg w hdr args e) = e"
  using assms
  by (auto simp: guard_request_def split: sum.splits py_exn.splits)

section \<open>Model names\<close>

lemma cache_name_no_slash: "CHR ''/'' \<notin> set (cache_name m)"
  unfolding cache_name_def by (rule replace_char_removes) simp

lemma last_component_append:
  assumes "n \<noteq> []" and "CHR ''/'' \<notin> set n" and "backslash \<notin> set n"
  shows "last_component (dir @ CHR ''/'' # n) = n"
proof -
  have n: "replace_char backslash ''/'' n = n" using assms(3) by (rule replace_char_absent)
  have slash: "CHR ''/'' \<noteq> backslash" by (simp add: backslash_def)
  let ?d = "replace_char backslash ''/'' dir"
  have "last n \<noteq> CHR ''/''" using assms(1,2) last_in_set by metis
  then have "rstrip_char CHR ''/'' (?d @ CHR ''/'' # n) = ?d @ CHR ''/'' # n"
    using assms(1) by (intro rstrip_char_last) simp_all
  with n slash show ?thesis
    using last_split_on_append[OF assms(2), of ?d] by (simp add: last_component_def)
qed

lemma last_component_name:
  assumes "n \<noteq> []" and "CHR ''/'' \<notin> set n" and "backslash \<notin> set n"
  shows "last_component n = n"
proof -
  have "last n \<noteq> CHR ''/''" using assms(1,2) last_in_set by metis
  with assms show ?thesis
    by (simp add: last_component_def replace_char_absent rstrip_char_last)
qed

lemma backslash_cache_name: "backslash \<notin> set m \<Longrightarrow> backslash \<notin> set (cache_name m)"
  using set_replace_char[of "CHR ''/''" "''--''" m] by (auto simp: cache_name_def backslash_def)

lemma cache_name_Nil: "cache_name m = [] \<longleftrightarrow> m = []"
  by (cases m) (simp_all add: cache_name_def)

text \<open>
  A model in the cache matches exactly the requests that have its directory name; the ids that
  share one (a slash or two dashes) are not told apart.
\<close>

lemma model_matches_cached:
  assumes "backslash \<notin> set m" "backslash \<notin> set r" "m \<noteq> []" "r \<noteq> []"
    and "dir @ CHR ''/'' # cache_name m \<noteq> r"
  shows "model_matches (dir @ CHR ''/'' # cache_name m) r \<longleftrightarrow> cache_name m = cache_name r"
  using assms
  by (simp add: model_matches_def last_component_append last_component_name cache_name_no_slash
      backslash_cache_name cache_name_Nil)

lemma cache_name_collision: "cache_name ''a/b'' = cache_name ''a--b''"
  by (simp add: cache_name_def)

section \<open>The model that answers\<close>

context inference_engine
begin

lemma ensured_model:
  assumes "ensure_model_loaded ops cfg ensure requested wait_lock e = (e', Inr ())"
    and "ok (wait_lock e)" and "ap_has_manager cfg" and "requested \<noteq> ''default''"
    and "\<And>path. ensure requested = Inr path \<Longrightarrow> model_matches path requested"
  shows "model_matches (op_model ops e') requested"
proof -
  let ?s = "op_switch ops (case ensure requested of Inr path \<Rightarrow> path | Inl _ \<Rightarrow> []) (wait_lock e)"
  consider "e' = e" "model_matches (op_model ops e) requested"
    | "e' = wait_lock e" "model_matches (op_model ops (wait_lock e)) requested"
    | path where "ensure requested = Inr path" "op_switch ops path (wait_lock e) = (e', Inr ())"
    using assms(1,3,4)
    by (auto simp: ensure_model_loaded_def switch_locked_def split: if_splits sum.splits)
  then show ?thesis
  proof cases
    case (3 path)
    with switch_model[OF assms(2), of path] have "op_model ops e' = path" by simp
    with 3 assms(5) show ?thesis by simp
  qed simp_all
qed

end

text \<open>The same of a pool whose engines serve one model.\<close>

definition one_model :: "'e engine_ops \<Rightarrow> 'e pool \<Rightarrow> bool" where
  "one_model ops p \<longleftrightarrow> (\<forall>e \<in> set (p_engines p). op_model ops e = pool_current_model ops p)"

context inference_engine
begin

lemma ensured_pool_model:
  assumes "ensure_model_loaded (pool_ops ops) cfg ensure requested wait_lock p = (p', Inr ())"
    and "pool_ok ok (wait_lock p)" and "\<not> p_pause_requested (wait_lock p)"
    and "one_model ops p" and "one_model ops (wait_lock p)"
    and "ap_has_manager cfg" and "requested \<noteq> ''default''"
    and "\<And>path. ensure requested = Inr path \<Longrightarrow> model_matches path requested"
    and "e \<in> set (p_engines p')"
  shows "model_matches (op_model ops e) requested"
proof -
  have model: "op_model (pool_ops ops) q = pool_current_model ops q" for q
    by (simp add: pool_ops_def)
  consider "p' = p" "model_matches (pool_current_model ops p) requested"
    | "p' = wait_lock p" "model_matches (pool_current_model ops (wait_lock p)) requested"
    | path where "ensure requested = Inr path"
        "pool_switch_model ops path (wait_lock p) = (p', Inr ())"
    using assms(1,6,7)
    by (auto simp: ensure_model_loaded_def switch_locked_def model split: if_splits sum.splits)
       (auto simp: pool_ops_def)
  then show ?thesis
  proof cases
    case (3 path)
    with pool_switch_uniform[OF assms(2) _ assms(3), of path e] assms(9)
    have "op_model ops e = path" by simp
    with 3 assms(8) show ?thesis by simp
  qed (use assms(4,5,9) in \<open>auto simp: one_model_def\<close>)
qed

end

section \<open>Replies\<close>

lemma finish_completion_Ok:
  assumes "finish_completion mk sha model res = Ok c"
  shows "\<exists>g. res = Inr g \<and> co_text c = gr_text g \<and> co_model c = model \<and>
    co_finish_reason c = gr_finish_reason g \<and>
    us_total_tokens (co_usage c) = us_prompt_tokens (co_usage c) + us_completion_tokens (co_usage c) \<and>
    us_prompt_tokens (co_usage c) = gr_prompt_tokens g \<and>
    us_completion_tokens (co_usage c) = gr_completion_tokens g \<and>
    mk (codes model) (codes (sha (utf8 (gr_text g)))) (gr_prompt_tokens g)
      (gr_completion_tokens g) (gr_cached_tokens g) = Inr (co_receipt c)"
  using assms
  by (auto simp: finish_completion_def usage_of_def split: sum.splits py_exn.splits if_splits)

text \<open>The engine's errors: retryable ones become 503, a prompt that is too long 400.\<close>

lemma finish_completion_errors:
  "finish_completion mk sha model (Inl (RuntimeError m)) = HttpError 503 m"
  "is_context_length_error m \<Longrightarrow>
   finish_completion mk sha model (Inl (ValueError m)) = HttpError 400 (''context length exceeded: '' @ m)"
  by (simp_all add: finish_completion_def)

section \<open>The stream\<close>

definition deltas :: "sse_event list \<Rightarrow> string" where
  "deltas evs = concat (map (\<lambda>ev. case ev of SseDelta d \<Rightarrow> d | _ \<Rightarrow> []) evs)"

lemma deltas_append [simp]: "deltas (a @ b) = deltas a @ deltas b"
  by (simp add: deltas_def)

lemma plain_chunks:
  assumes "\<forall>c \<in> set cs. sc_finish_reason c = None"
  shows "map chunk_event cs = map SseDelta (map sc_text_delta cs)"
    and "delivered_text cs = stream_text cs" and "final_usage cs = None"
    and "deltas (map chunk_event cs) = stream_text cs"
proof -
  show ev: "map chunk_event cs = map SseDelta (map sc_text_delta cs)"
    using assms by (simp add: chunk_event_def)
  have "filter (\<lambda>c. sc_finish_reason c = None) cs = cs" using assms by (simp add: filter_id_conv)
  then show "delivered_text cs = stream_text cs" by (simp add: delivered_text_def stream_text_def)
  have "filter (\<lambda>c. sc_finish_reason c \<noteq> None) cs = []" using assms by (simp add: filter_empty_conv)
  then show "final_usage cs = None" by (simp add: final_usage_def)
  show "deltas (map chunk_event cs) = stream_text cs"
    unfolding ev by (simp add: deltas_def stream_text_def comp_def)
qed

lemma delivered_text_closed:
  "\<forall>c \<in> set cs. sc_finish_reason c = None \<Longrightarrow>
   delivered_text (cs @ [closing_chunk r]) = stream_text cs \<and>
   final_usage (cs @ [closing_chunk r]) =
     Some (gr_prompt_tokens r, gr_completion_tokens r, gr_cached_tokens r)"
  by (simp add: delivered_text_def final_usage_def stream_text_def closing_chunk_def
      filter_id_conv[THEN iffD2] filter_empty_conv[THEN iffD2])

text \<open>
  A stream that completes delivers the text of the whole result, its finish reason and usage,
  and, when asked for, the receipt that the buffered reply would carry; then [DONE].
\<close>

lemma sse_complete:
  assumes "generate available evs = Inr r" and "cumulative '''' evs"
    and "mk (codes model) (codes (sha (utf8 (gr_text r)))) (gr_prompt_tokens r)
      (gr_completion_tokens r) (gr_cached_tokens r) = Inr rcpt"
  shows "\<exists>ds. sse_generator mk sha model want (generate_stream available evs) =
      (map SseDelta ds @
       [SseFinish (gr_finish_reason r)
          (usage_of (gr_prompt_tokens r) (gr_completion_tokens r) (gr_cached_tokens r))] @
       (if want then [SseReceipt rcpt] else []) @ [SseDone], None) \<and>
    concat ds = gr_text r"
proof -
  obtain cs where cs: "generate_stream available evs = (cs @ [closing_chunk r], None)"
    "stream_text cs = gr_text r" "\<forall>c \<in> set cs. sc_finish_reason c = None"
    using generate_stream_result[OF assms(1,2)] by auto
  have ev: "map chunk_event cs = map SseDelta (map sc_text_delta cs)"
    using cs(3) by (rule plain_chunks)
  have fin: "chunk_event (closing_chunk r) = SseFinish (gr_finish_reason r)
      (usage_of (gr_prompt_tokens r) (gr_completion_tokens r) (gr_cached_tokens r))"
    by (simp add: chunk_event_def closing_chunk_def)
  have "sse_end mk sha model want (cs @ [closing_chunk r]) =
      ((if want then [SseReceipt rcpt] else []) @ [SseDone], None)"
    using delivered_text_closed[OF cs(3), of r] cs(2) assms(3)
    by (cases want) (simp_all add: sse_end_def)
  then have "sse_generator mk sha model want (generate_stream available evs) =
      (map SseDelta (map sc_text_delta cs) @
       [SseFinish (gr_finish_reason r)
          (usage_of (gr_prompt_tokens r) (gr_completion_tokens r) (gr_cached_tokens r))] @
       (if want then [SseReceipt rcpt] else []) @ [SseDone], None)"
    by (simp add: sse_generator_def cs(1) ev fin del: map_map)
  moreover have "concat (map sc_text_delta cs) = gr_text r"
    using cs(2) by (simp add: stream_text_def)
  ultimately show ?thesis by blast
qed

text \<open>
  An interrupted stream ends with an error event and [DONE], and carries no receipt.
\<close>

lemma sse_interrupted:
  "sse_generator mk sha model want (cs, Some (RuntimeError m)) =
     (map chunk_event cs @ [SseError m, SseDone], None)"
  by (simp add: sse_generator_def)

lemma chunk_event_neq [simp]: "chunk_event c \<noteq> SseDone" "chunk_event c \<noteq> SseReceipt r"
  by (simp_all add: chunk_event_def split: option.split)

text \<open>Every stream that is not broken off ends with [DONE], and holds it once.\<close>

lemma sse_close_done:
  "sse_close x = (tail, None) \<Longrightarrow> \<exists>f. tail = f @ [SseDone] \<and> SseDone \<notin> set f"
  by (cases x) auto

lemma sse_done_once:
  assumes "sse_generator mk sha model want stream = (evs, None)"
  shows "\<exists>front. evs = front @ [SseDone] \<and> SseDone \<notin> set front"
proof -
  obtain cs x where st: "stream = (cs, x)" by (cases stream)
  obtain tail where tail: "evs = map chunk_event cs @ tail"
    "(case x of None \<Rightarrow> sse_end mk sha model want cs | Some err \<Rightarrow> sse_close err) = (tail, None)"
    using assms by (auto simp: sse_generator_def st split: prod.splits)
  have "\<exists>f. tail = f @ [SseDone] \<and> SseDone \<notin> set f"
  proof (cases x)
    case None
    with tail(2) show ?thesis
      by (auto simp: sse_end_def intro: sse_close_done split: option.splits sum.splits bool.splits)
  next
    case (Some err)
    with tail(2) sse_close_done show ?thesis by simp
  qed
  then obtain f where f: "tail = f @ [SseDone]" "SseDone \<notin> set f" by blast
  have "SseDone \<notin> set (map chunk_event cs)" using chunk_event_neq(1) by (metis ex_map_conv)
  with f tail(1) show ?thesis by (intro exI[of _ "map chunk_event cs @ f"]) simp
qed

section \<open>The informational endpoints\<close>

text \<open>
  \<open>/health\<close> says ok exactly when a request for the loaded model would get past the
  availability check, and \<open>/v1/models\<close> shows its list to the token's bearer only.
\<close>

lemma health_ok_iff_available:
  "health_report ops detail cr (Inr s) e = Inr h \<Longrightarrow> he_status h = ''ok'' \<longleftrightarrow> op_available ops e"
  by (auto simp: health_report_def split: if_splits)

lemma list_models_guarded:
  "list_models ops cfg hdr registry e = Ok rows \<Longrightarrow>
   require_auth cfg hdr = Inr () \<and> rows = model_rows ops registry e"
  by (auto simp: list_models_def split: sum.splits py_exn.splits)

section \<open>A switch that is aborted half way\<close>

text \<open>
  Two engines serve model m.  A request for n switches engine 0; then the yield request comes
  and the switch ends.  After the pause and the next resume both engines run, engine 0 with n,
  engine 1 with m, and nothing ever switches engine 1: the pool's model is engine 0's.
\<close>

definition two_mocks :: "mock pool" where
  "two_mocks = pool_init ''multi_instance''
     [fst (mock_start ''m'' (mock_init 0 0)), fst (mock_start ''m'' (mock_init 0 1))] ''round_robin''"

definition aborted_switch :: "plabel list" where
  "aborted_switch =
     [PCall 0 (PcSwitch ''n''), PRun 0, PCall 1 PcRequestPause, PRun 0, PCall 1 (PcPause NORMAL),
      PCall 2 PcResume, PRun 2, PRun 2, PRun 2]"

definition split_sys :: "mock pool_sys" where
  "split_sys = the (pool_exec mock_ops aborted_switch (pool_sys_of two_mocks))"

lemmas split_defs =
  split_sys_def aborted_switch_def two_mocks_def pool_init_def mock_start_def mock_init_def
  mock_set_def pool_sys_of_def set_task_def pool_run_def switch_turn_def loop_turn_def mock_ops_def
  mock_switch_model_def mock_pause_def mock_resume_def pool_pause_def gather_def request_pause_def

lemma split_sys_state:
  "pool_exec mock_ops aborted_switch (pool_sys_of two_mocks) = Some split_sys \<and>
   map m_model (p_engines (ps_pool split_sys)) = [''n'', ''m''] \<and>
   map m_state (p_engines (ps_pool split_sys)) = [RUNNING, RUNNING] \<and>
   p_lb_strategy (ps_pool split_sys) = ''round_robin'' \<and> p_rr_index (ps_pool split_sys) = 0 \<and>
   (\<forall>i. ps_tasks split_sys i \<in> {TIdle, TReturned})"
  by (simp add: split_defs)

lemma split_sys_ensure:
  "ensure_model_loaded (pool_ops mock_ops) cfg ensure ''n'' wait_lock (ps_pool split_sys) =
     (ps_pool split_sys, Inr ())"
  by (simp add: ensure_model_loaded_def pool_ops_def pool_current_model_def split_defs
      model_matches_def)

lemma split_sys_pick:
  "picks mock_ops 0 2 (ps_pool split_sys) = [Inr 0, Inr 1]"
  by (simp add: numeral_2_eq_2 pick_engine_def balance_def available_engines_def mock_is_available_def
      split_defs Let_def)

end
