(* ===== verification/Wire.thy ===== *)
theory Wire
  imports Json Api_Laws
begin

text \<open>
  What leaves the API server as bytes: the \<open>X-OM-Receipt\<close> header of a buffered reply (the
  receipt as compact JSON, in base64) and the frames of a streamed one.  Both determine what
  was sent, and neither can break the framing around it.
\<close>

section \<open>\<open>base64.b64encode\<close>\<close>

definition b64_alphabet :: string where
  "b64_alphabet = ''ABCDEFGHIJKLMNOPQRSTUVWXYZabcdefghijklmnopqrstuvwxyz0123456789+/''"

definition b64_char :: "nat \<Rightarrow> char" where
  "b64_char n = b64_alphabet ! n"

fun b64_bytes :: "nat list \<Rightarrow> string" where
  "b64_bytes [] = []"
| "b64_bytes [a] = [b64_char (a div 4), b64_char (a mod 4 * 16), CHR ''='', CHR ''='']"
| "b64_bytes [a, b] =
     [b64_char (a div 4), b64_char (a mod 4 * 16 + b div 16), b64_char (b mod 16 * 4), CHR ''='']"
| "b64_bytes (a # b # c # bs) =
     [b64_char (a div 4), b64_char (a mod 4 * 16 + b div 16), b64_char (b mod 16 * 4 + c div 64),
      b64_char (c mod 64)] @ b64_bytes bs"

definition b64encode :: "string \<Rightarrow> string" where
  "b64encode s = b64_bytes (map of_char s)"

lemma length_b64_alphabet [simp]: "length b64_alphabet = 64"
  by (simp add: b64_alphabet_def)

lemma distinct_b64_alphabet: "distinct b64_alphabet"
  by (simp add: b64_alphabet_def)

lemma b64_char_eq [simp]: "m < 64 \<Longrightarrow> n < 64 \<Longrightarrow> b64_char m = b64_char n \<longleftrightarrow> m = n"
  by (simp add: b64_char_def nth_eq_iff_index_eq[OF distinct_b64_alphabet])

lemma b64_char_in: "n < 64 \<Longrightarrow> b64_char n \<in> set b64_alphabet"
  by (simp add: b64_char_def)

lemma b64_char_not_pad [simp]:
  "n < 64 \<Longrightarrow> b64_char n \<noteq> CHR ''=''" "n < 64 \<Longrightarrow> CHR ''='' \<noteq> b64_char n"
  using b64_char_in[of n] by (auto simp: b64_alphabet_def)

lemma sextets [simp]:
  assumes "(a :: nat) < 256"
  shows "a div 4 < 64" "a mod 4 * 16 < 64" "a mod 16 * 4 < 64" "a mod 64 < 64"
    "b < 256 \<Longrightarrow> a mod 4 * 16 + b div 16 < 64" "b < 256 \<Longrightarrow> a mod 16 * 4 + b div 64 < 64"
  using assms by linarith+

text \<open>Two bytes of which the high part and the low part agree are the same.\<close>

lemma byte_parts:
  "(a :: nat) div 4 = a' div 4 \<Longrightarrow> a mod 4 = a' mod 4 \<Longrightarrow> a = a'"
  "(a :: nat) div 16 = a' div 16 \<Longrightarrow> a mod 16 = a' mod 16 \<Longrightarrow> a = a'"
  "(a :: nat) div 64 = a' div 64 \<Longrightarrow> a mod 64 = a' mod 64 \<Longrightarrow> a = a'"
  by (metis div_mult_mod_eq)+

lemma digits_eq:
  "(x :: nat) * m + p = y * m + q \<Longrightarrow> p < m \<Longrightarrow> q < m \<Longrightarrow> x = y \<and> p = q"
  by (metis add.commute div_mult_self1 div_less less_zeroE mod_less mod_mult_self1 add_0 not_gr_zero)

lemma mixed_parts:
  assumes "(b :: nat) < 256" and "b' < 256"
  shows "(a :: nat) mod 4 * 16 + b div 16 = a' mod 4 * 16 + b' div 16 \<Longrightarrow>
      a mod 4 = a' mod 4 \<and> b div 16 = b' div 16"
    and "(a :: nat) mod 16 * 4 + b div 64 = a' mod 16 * 4 + b' div 64 \<Longrightarrow>
      a mod 16 = a' mod 16 \<and> b div 64 = b' div 64"
proof -
  have "b div 16 < 16" "b' div 16 < 16" "b div 64 < 4" "b' div 64 < 4" using assms by simp_all
  then show "a mod 4 * 16 + b div 16 = a' mod 4 * 16 + b' div 16 \<Longrightarrow>
      a mod 4 = a' mod 4 \<and> b div 16 = b' div 16"
    "a mod 16 * 4 + b div 64 = a' mod 16 * 4 + b' div 64 \<Longrightarrow>
      a mod 16 = a' mod 16 \<and> b div 64 = b' div 64"
    by (auto dest: digits_eq)
qed

lemma b64_bytes_inj:
  "\<forall>a \<in> set xs. a < 256 \<Longrightarrow> \<forall>a \<in> set ys. a < 256 \<Longrightarrow> b64_bytes xs = b64_bytes ys \<Longrightarrow> xs = ys"
proof (induction xs arbitrary: ys rule: b64_bytes.induct)
  case 1
  then show ?case by (cases ys rule: b64_bytes.cases) auto
next
  case (2 a)
  then show ?case
    by (cases ys rule: b64_bytes.cases) (auto intro: byte_parts(1))
next
  case (3 a b)
  then show ?case
    by (cases ys rule: b64_bytes.cases) (auto dest!: mixed_parts[rotated 2] intro: byte_parts)
next
  case (4 a b c bs)
  then show ?case
    by (cases ys rule: b64_bytes.cases) (auto dest!: mixed_parts[rotated 2] intro: byte_parts)
qed

lemma b64encode_inj: "b64encode s = b64encode t \<Longrightarrow> s = t"
proof -
  assume "b64encode s = b64encode t"
  then have "map of_char s = (map of_char t :: nat list)"
    unfolding b64encode_def by (intro b64_bytes_inj) auto
  then show "s = t" by (simp add: inj_map_eq_map inj_of_char)
qed

lemma set_b64_bytes:
  "\<forall>a \<in> set xs. a < 256 \<Longrightarrow> set (b64_bytes xs) \<subseteq> insert (CHR ''='') (set b64_alphabet)"
  by (induction xs rule: b64_bytes.induct) (auto intro!: b64_char_in)

section \<open>The receipt header\<close>

definition receipt_json :: "receipt \<Rightarrow> json" where
  "receipt_json r =
     (let f = rc_fields r in
      JObj [(''v'', JInt (rc_v r)),
            (''request_id'', JStr (rf_request_id f)),
            (''model'', JStr (rf_model f)),
            (''request_sha256'', JStr (rf_request_sha256 f)),
            (''response_sha256'', JStr (rf_response_sha256 f)),
            (''prompt_tokens'', JInt (rf_prompt_tokens f)),
            (''completion_tokens'', JInt (rf_completion_tokens f)),
            (''cached_tokens'', JInt (rf_cached_tokens f)),
            (''ts'', JInt (rf_ts f)),
            (''pubkey'', JStr (rf_pubkey f)),
            (''sig'', JStr (codes (rc_sig r)))])"

definition receipt_header :: "receipt \<Rightarrow> string" where
  "receipt_header r = b64encode (dumps '','' '':'' (receipt_json r))"

lemma codes_scalar [simp]: "list_all scalar (codes s)" "\<forall>c \<in> set (codes s). scalar c"
proof -
  have "scalar (of_char c)" for c :: char
    using nat_of_char_less_256[of c] unfolding scalar_def surrogate_def by arith
  then show "\<forall>c \<in> set (codes s). scalar c" by (simp add: codes_def)
  then show "list_all scalar (codes s)" by (simp add: list_all_iff)
qed

lemma codes_eq [simp]: "codes s = codes t \<longleftrightarrow> s = t"
  by (simp add: codes_def inj_map_eq_map inj_of_char)

lemma separators [simp]: "separator '',''" "separator '', ''"
  by (simp_all add: separator_def)

lemma receipt_json_inj: "receipt_json r = receipt_json r' \<Longrightarrow> r = r'"
  by (simp add: receipt_json_def Let_def)

lemma receipt_json_valid: "valid_fields (rc_fields r) \<Longrightarrow> json_valid (receipt_json r)"
  by (simp add: receipt_json_def valid_fields_def Let_def list_all_iff quote_def)

lemma receipt_header_inj:
  assumes "valid_fields (rc_fields r)" and "valid_fields (rc_fields r')"
    and "receipt_header r = receipt_header r'"
  shows "r = r'"
proof -
  have "dumps '','' '':'' (receipt_json r) = dumps '','' '':'' (receipt_json r')"
    using assms(3) unfolding receipt_header_def by (rule b64encode_inj)
  then show ?thesis
    by (intro receipt_json_inj dumps_inj[OF _ receipt_json_valid[OF assms(1)]
          receipt_json_valid[OF assms(2)]]) simp_all
qed

lemma receipt_header_chars: "set (receipt_header r) \<subseteq> insert (CHR ''='') (set b64_alphabet)"
  unfolding receipt_header_def b64encode_def by (intro set_b64_bytes) auto

section \<open>The response to a buffered request\<close>

definition usage_json :: "usage \<Rightarrow> json" where
  "usage_json u =
     JObj [(''prompt_tokens'', JInt (us_prompt_tokens u)),
           (''completion_tokens'', JInt (us_completion_tokens u)),
           (''total_tokens'', JInt (us_total_tokens u)),
           (''prompt_tokens_details'', JObj [(''cached_tokens'', JInt (us_cached_tokens u))])]"

text \<open>
  \<open>CompletionResponse\<close> of either route, with its id and time; a choice holds a message or a
  text.
\<close>

definition choice_json :: "bool \<Rightarrow> completion \<Rightarrow> json" where
  "choice_json chat c =
     JObj [(''index'', JInt 0),
           (''message'', if chat then JObj [(''role'', JStr (codes ''assistant'')),
              (''content'', JStr (codes (co_text c)))] else JNull),
           (''text'', if chat then JNull else JStr (codes (co_text c))),
           (''finish_reason'', JStr (codes (co_finish_reason c)))]"

definition completion_json :: "bool \<Rightarrow> string \<Rightarrow> int \<Rightarrow> completion \<Rightarrow> json" where
  "completion_json chat cid created c =
     JObj [(''id'', JStr (codes cid)),
           (''object'', JStr (codes (if chat then ''chat.completion'' else ''text_completion''))),
           (''created'', JInt created), (''model'', JStr (codes (co_model c))),
           (''choices'', JList [choice_json chat c]), (''usage'', usage_json (co_usage c))]"

text \<open>
  The status, the headers the handler sets, and the body as an object; \<open>None\<close> for a body that
  the framework makes up (a validation error, an exception let through).
\<close>

record http_response =
  hr_status :: int
  hr_headers :: "(string \<times> string) list"
  hr_body :: "json option"

fun render_reply :: "bool \<Rightarrow> string \<Rightarrow> int \<Rightarrow> completion reply \<Rightarrow> http_response" where
  "render_reply chat cid created (Ok c) =
     \<lparr>hr_status = 200, hr_headers = [(''X-OM-Receipt'', receipt_header (co_receipt c))],
      hr_body = Some (completion_json chat cid created c)\<rparr>"
| "render_reply chat cid created (HttpError code m) =
     \<lparr>hr_status = code, hr_headers = [],
      hr_body = (if code = 422 then None else Some (JObj [(''detail'', JStr (codes m))]))\<rparr>"
| "render_reply chat cid created (Yielded m retry) =
     \<lparr>hr_status = 503, hr_headers = [(''Retry-After'', retry)],
      hr_body = Some (JObj [(''error'', JObj [(''message'', JStr (codes m)),
        (''type'', JStr (codes ''service_unavailable''))])])\<rparr>"
| "render_reply chat cid created (Crash x) =
     \<lparr>hr_status = 500, hr_headers = [], hr_body = None\<rparr>"

lemma usage_json_inj: "usage_json u = usage_json u' \<Longrightarrow> u = u'"
  by (simp add: usage_json_def)

text \<open>The response of a completion determines it.\<close>

lemma render_Ok_inj:
  assumes "valid_fields (rc_fields (co_receipt c))" and "valid_fields (rc_fields (co_receipt c'))"
    and "render_reply chat cid created (Ok c) = render_reply chat cid created (Ok c')"
  shows "c = c'"
proof -
  have "co_receipt c = co_receipt c'"
    using assms(3) by (intro receipt_header_inj[OF assms(1,2)]) simp
  moreover have "co_usage c = co_usage c'"
    using assms(3) by (intro usage_json_inj) (simp add: completion_json_def)
  moreover have "co_model c = co_model c'" "co_text c = co_text c'" "co_finish_reason c = co_finish_reason c'"
    using assms(3) by (cases chat; simp add: completion_json_def choice_json_def)+
  ultimately show ?thesis by simp
qed

section \<open>Frames of the event stream\<close>

definition chunk_json :: "string \<Rightarrow> int \<Rightarrow> string \<Rightarrow> json \<Rightarrow> json \<Rightarrow> (string \<times> json) list" where
  "chunk_json cid created model delta reason =
     [(''id'', JStr (codes cid)), (''object'', JStr (codes ''chat.completion.chunk'')),
      (''created'', JInt created), (''model'', JStr (codes model)),
      (''choices'', JList [JObj [(''index'', JInt 0), (''delta'', delta), (''finish_reason'', reason)]])]"

text \<open>The JSON of an event; the last one, \<open>[DONE]\<close>, is not JSON.\<close>

fun event_json :: "string \<Rightarrow> int \<Rightarrow> string \<Rightarrow> sse_event \<Rightarrow> json option" where
  "event_json cid created model (SseDelta t) =
     Some (JObj (chunk_json cid created model (JObj [(''content'', JStr (codes t))]) JNull))"
| "event_json cid created model (SseFinish r u) =
     Some (JObj (chunk_json cid created model (JObj []) (JStr (codes r)) @ [(''usage'', usage_json u)]))"
| "event_json cid created model (SseReceipt r) = Some (JObj [(''om_receipt'', receipt_json r)])"
| "event_json cid created model (SseError m) =
     Some (JObj [(''error'', JObj [(''message'', JStr (codes m)),
       (''type'', JStr (codes ''server_error''))])])"
| "event_json cid created model SseDone = None"

definition sse_payload :: "string \<Rightarrow> int \<Rightarrow> string \<Rightarrow> sse_event \<Rightarrow> string" where
  "sse_payload cid created model ev =
     (case event_json cid created model ev of None \<Rightarrow> ''[DONE]'' | Some v \<Rightarrow> dumps '', '' '': '' v)"

definition line_feed :: char where "line_feed = CHR 0x0A"

definition sse_frame :: "string \<Rightarrow> int \<Rightarrow> string \<Rightarrow> sse_event \<Rightarrow> string" where
  "sse_frame cid created model ev =
     ''data: '' @ sse_payload cid created model ev @ [line_feed, line_feed]"

definition sse_bytes :: "string \<Rightarrow> int \<Rightarrow> string \<Rightarrow> sse_event list \<Rightarrow> string" where
  "sse_bytes cid created model evs = concat (map (sse_frame cid created model) evs)"

subsection \<open>The payload determines the event\<close>

lemma event_json_inj:
  "event_json cid created model ev = event_json cid created model ev' \<Longrightarrow> ev = ev'"
  by (cases ev; cases ev')
     (auto simp: chunk_json_def usage_json_def dest: receipt_json_inj)

fun valid_event :: "sse_event \<Rightarrow> bool" where
  "valid_event (SseReceipt r) = valid_fields (rc_fields r)"
| "valid_event ev = True"

lemma event_json_valid:
  "valid_event ev \<Longrightarrow> event_json cid created model ev = Some v \<Longrightarrow>
   json_valid v \<and> (\<exists>kvs. v = JObj kvs)"
  by (cases ev) (auto simp: chunk_json_def usage_json_def receipt_json_valid quote_def)

lemma sse_payload_inj:
  assumes "valid_event ev" and "valid_event ev'"
    and "sse_payload cid created model ev = sse_payload cid created model ev'"
  shows "ev = ev'"
proof -
  let ?j = "event_json cid created model"
  have not_done: "dumps '', '' '': '' v \<noteq> ''[DONE]''" if "?j e = Some v" "valid_event e" for e v
    using event_json_valid[OF that(2,1)] by auto
  have "?j ev = ?j ev'"
  proof (cases "?j ev")
    case None
    with assms not_done[of ev'] show ?thesis by (cases "?j ev'") (auto simp: sse_payload_def)
  next
    case (Some v)
    with assms not_done[OF Some] obtain w where w: "?j ev' = Some w"
      by (cases "?j ev'") (auto simp: sse_payload_def)
    with Some assms(3) have "dumps '', '' '': '' v = dumps '', '' '': '' w"
      by (simp add: sse_payload_def)
    then have "v = w"
      using event_json_valid[OF assms(1) Some] event_json_valid[OF assms(2) w]
      by (intro dumps_inj[of "'', ''"]) simp_all
    with Some w show ?thesis by simp
  qed
  then show ?thesis by (rule event_json_inj)
qed

subsection \<open>The framing holds\<close>

lemma printable_sse_payload: "printable (sse_payload cid created model ev)"
proof (cases "event_json cid created model ev")
  case None
  then show ?thesis by (simp add: sse_payload_def)
next
  case (Some v)
  then have "json_keys_printable v"
    by (cases ev) (auto simp: chunk_json_def usage_json_def receipt_json_def Let_def)
  with Some show ?thesis by (simp add: sse_payload_def printable_dumps)
qed

lemma no_line_feed: "line_feed \<notin> set (sse_payload cid created model ev)"
  using printable_sse_payload[of cid created model ev]
  by (auto simp: printable_def line_feed_def)

lemma sse_bytes_lines:
  "filter (\<lambda>l. l \<noteq> []) (split_on line_feed (sse_bytes cid created model evs)) =
     map (\<lambda>ev. ''data: '' @ sse_payload cid created model ev) evs"
proof (induction evs)
  case (Cons ev evs)
  let ?l = "''data: '' @ sse_payload cid created model ev"
  have "line_feed \<notin> set ?l" using no_line_feed by (auto simp: line_feed_def)
  from split_on_append_sep[OF this]
  have lines: "split_on line_feed (?l @ line_feed # line_feed # x) = ?l # [] # split_on line_feed x" for x
    by simp
  have "sse_bytes cid created model (ev # evs) =
      ?l @ line_feed # line_feed # sse_bytes cid created model evs"
    by (simp add: sse_bytes_def sse_frame_def)
  then have "split_on line_feed (sse_bytes cid created model (ev # evs)) =
      ?l # [] # split_on line_feed (sse_bytes cid created model evs)"
    by (simp only: lines)
  with Cons.IH show ?case by simp
qed (simp add: sse_bytes_def)

lemma map_append_prefix:
  "map (\<lambda>x. s @ f x) xs = map (\<lambda>x. s @ f x) ys \<Longrightarrow> map f xs = map f ys"
proof (induction xs arbitrary: ys)
  case (Cons x xs)
  from Cons.prems obtain y zs where ys: "ys = y # zs" by (cases ys) simp_all
  with Cons.prems have "f x = f y" "map (\<lambda>x. s @ f x) xs = map (\<lambda>x. s @ f x) zs" by simp_all
  with Cons.IH[of zs] ys show ?case by simp
qed simp

lemma sse_bytes_inj:
  assumes "list_all valid_event evs" and "list_all valid_event evs'"
    and "sse_bytes cid created model evs = sse_bytes cid created model evs'"
  shows "evs = evs'"
proof -
  let ?lines = "\<lambda>evs. filter (\<lambda>l. l \<noteq> []) (split_on line_feed (sse_bytes cid created model evs))"
  have "?lines evs = ?lines evs'" by (simp only: assms(3))
  then have "map (\<lambda>ev. ''data: '' @ sse_payload cid created model ev) evs =
      map (\<lambda>ev. ''data: '' @ sse_payload cid created model ev) evs'"
    unfolding sse_bytes_lines .
  then have eq: "map (sse_payload cid created model) evs = map (sse_payload cid created model) evs'"
    by (rule map_append_prefix)
  have "inj_on (sse_payload cid created model) (set evs \<union> set evs')"
    using assms(1,2) sse_payload_inj by (auto simp: inj_on_def list_all_iff)
  from map_inj_on[OF eq this] show ?thesis .
qed

end
