(* ===== verification/Reply_Props.thy ===== *)
theory Reply_Props
  imports Wire
begin

text \<open>
  The properties of a reply: what its receipt attests, that the streamed and the buffered form
  agree, which requests are answered at all, the worker's signing key, and the bytes that go
  over the wire.
\<close>

section \<open>Receipts\<close>

definition some_fields :: "receipt_fields" where
  "some_fields =
     \<lparr>rf_request_id = codes ''r'', rf_model = [0x1F600, 34, 92], rf_request_sha256 = codes ''a'',
      rf_response_sha256 = codes ''b'', rf_prompt_tokens = 3, rf_completion_tokens = 4,
      rf_cached_tokens = 0, rf_ts = 7, rf_pubkey = codes ''k''\<rparr>"

text \<open>A world for the witnesses: one key, signatures that repeat the message, a fixed answer.\<close>

definition plain_crypto :: "unit crypto" where
  "plain_crypto =
     \<lparr>cr_parse = (\<lambda>s. if s = ''key'' then Some () else None), cr_raw = (\<lambda>_. ''key''),
      cr_pub = (\<lambda>_. codes ''pub''), cr_sign = (\<lambda>_ m. m)\<rparr>"

definition plain_verify :: "code_points \<Rightarrow> string \<Rightarrow> string \<Rightarrow> bool" where
  "plain_verify pub m s \<longleftrightarrow> pub = codes ''pub'' \<and> s = m"

definition plain_answer :: generate_result where
  "plain_answer =
     \<lparr>gr_text = ''hi'', gr_prompt_tokens = 2, gr_completion_tokens = 1,
      gr_finish_reason = ''stop'', gr_cached_tokens = 0\<rparr>"

definition plain_world :: "('e, unit) request_world" where
  "plain_world =
     \<lparr>rw_ensure = (\<lambda>m. Inr m), rw_wait_lock = (\<lambda>e. e), rw_lock_held = False,
      rw_generate = (\<lambda>p k a e. (e, Inr plain_answer)), rw_stream = (\<lambda>p k a e. (e, [], None)),
      rw_crypto = plain_crypto, rw_signer = Inr \<lparr>sg_key = (), sg_persistent = True\<rparr>,
      rw_time = 5\<rparr>"

definition token_config :: api_config where
  "token_config = \<lparr>ap_api_token = ''t'', ap_max_tokens_limit = 100, ap_has_manager = True\<rparr>"

definition token_headers :: headers where
  "token_headers h = (if h = ''authorization'' then Some ''Bearer t'' else None)"

definition plain_args :: completion_args where
  "plain_args =
     \<lparr>ca_model = ''m'', ca_max_tokens = 50, ca_temperature = 1, ca_top_p = 1,
      ca_stop = StopNone, ca_continuation = None\<rparr>"

definition running_mock :: mock where
  "running_mock = fst (mock_start ''m'' (mock_init 0 0))"

definition plain_reply :: "headers \<Rightarrow> mock \<times> completion reply" where
  "plain_reply hdr =
     chat_completions mock_ops (\<lambda>s. s) token_config plain_world hdr ''body''
       [\<lparr>cm_role = ''user'', cm_content = ''hello''\<rparr>] plain_args running_mock"

lemmas plain_defs =
  plain_reply_def chat_completions_def answer_completion_def guard_request_def require_auth_def compare_digest_def
  token_config_def token_headers_def plain_args_def valid_args_def check_max_tokens_def
  ensure_model_loaded_def model_matches_def running_mock_def mock_ops_def mock_start_def
  mock_init_def mock_set_def mock_is_available_def finish_completion_def plain_world_def
  plain_answer_def receipt_maker_def build_receipt_def plain_crypto_def

lemma plain_reply_Ok: "\<exists>c. plain_reply token_headers = (running_mock, Ok c) \<and> co_text c = ''hi''"
  by (simp add: plain_defs Let_def)

text \<open>
  C30. A completion carries a receipt that verifies and attests it: the request's bytes, the
  text delivered, the model asked for, the token counts of the usage and the worker's key.
\<close>

theorem reply_carries_verified_receipt:
  assumes "chat_completions ops sha cfg w hdr body ms args e = (e', Ok c) \<or>
      completions ops sha cfg w hdr body prompt args e = (e', Ok c)"
    and "\<forall>k m. verify (cr_pub (rw_crypto w) k) m (cr_sign (rw_crypto w) k m)"
  shows "receipt_verifies verify (co_receipt c) \<and>
    rf_response_sha256 (rc_fields (co_receipt c)) = codes (sha (utf8 (co_text c))) \<and>
    rf_request_sha256 (rc_fields (co_receipt c)) = codes (sha body) \<and>
    rf_model (rc_fields (co_receipt c)) = codes (ca_model args) \<and> co_model c = ca_model args \<and>
    rf_prompt_tokens (rc_fields (co_receipt c)) = us_prompt_tokens (co_usage c) \<and>
    rf_completion_tokens (rc_fields (co_receipt c)) = us_completion_tokens (co_usage c) \<and>
    us_total_tokens (co_usage c) = us_prompt_tokens (co_usage c) + us_completion_tokens (co_usage c) \<and>
    (\<exists>s. rw_signer w = Inr s \<and>
      rf_pubkey (rc_fields (co_receipt c)) = pubkey_hex (rw_crypto w) s)"
proof -
  obtain res where
    fin: "finish_completion (receipt_maker sha w hdr body) sha (ca_model args) res = Ok c"
    using assms(1) by (rule handler_answered)
  from finish_completion_Ok[OF fin] obtain g :: generate_result where g:
    "co_text c = gr_text g" "co_model c = ca_model args"
    "us_total_tokens (co_usage c) = us_prompt_tokens (co_usage c) + us_completion_tokens (co_usage c)"
    "us_prompt_tokens (co_usage c) = gr_prompt_tokens g"
    "us_completion_tokens (co_usage c) = gr_completion_tokens g"
    "receipt_maker sha w hdr body (codes (ca_model args)) (codes (sha (utf8 (gr_text g))))
       (gr_prompt_tokens g) (gr_completion_tokens g) (gr_cached_tokens g) = Inr (co_receipt c)"
    by auto
  note mk = g(6)[unfolded receipt_maker_def]
  obtain s where s: "rw_signer w = Inr s"
    using mk by (auto simp: build_receipt_def bind_result_eq_Inr)
  have "receipt_verifies verify (co_receipt c)"
    using build_receipt_verifies[OF _ mk] assms(2) by blast
  with build_receipt_fields[OF mk[unfolded s]] g s show ?thesis by simp
qed

theorem reply_carries_verified_receipt_witness:
  "\<exists>c. plain_reply token_headers = (running_mock, Ok c) \<and>
     receipt_verifies plain_verify (co_receipt c) \<and>
     rf_response_sha256 (rc_fields (co_receipt c)) = codes ''hi''"
proof -
  obtain c where c: "plain_reply token_headers = (running_mock, Ok c)" "co_text c = ''hi''"
    using plain_reply_Ok by blast
  have "\<forall>k m. plain_verify (cr_pub (rw_crypto (plain_world :: (mock, unit) request_world)) k) m
      (cr_sign (rw_crypto (plain_world :: (mock, unit) request_world)) k m)"
    by (simp add: plain_verify_def plain_world_def plain_crypto_def)
  from reply_carries_verified_receipt[OF disjI1[OF c(1)[unfolded plain_reply_def]] this] c
  show ?thesis by (auto simp: utf8_def utf8_char_def Let_def)
qed

text \<open>
  C31. Streaming changes the form of a reply only: a stream of a generation that returns
  delivers its text as deltas, then its finish reason and usage, then, when asked for, the
  very receipt of the buffered reply, then one [DONE].
\<close>

theorem streamed_reply_matches_buffered:
  assumes "generate available evs = Inr r" and "cumulative '''' evs"
    and "finish_completion mk sha model (generate available evs) = Ok c"
  shows "\<exists>ds. sse_generator mk sha model want (generate_stream available evs) =
      (map SseDelta ds @ [SseFinish (co_finish_reason c) (co_usage c)] @
       (if want then [SseReceipt (co_receipt c)] else []) @ [SseDone], None) \<and>
    concat ds = co_text c"
proof -
  have c: "mk (codes model) (codes (sha (utf8 (gr_text r)))) (gr_prompt_tokens r)
      (gr_completion_tokens r) (gr_cached_tokens r) = Inr (co_receipt c)"
    "co_finish_reason c = gr_finish_reason r" "co_text c = gr_text r"
    "co_usage c = usage_of (gr_prompt_tokens r) (gr_completion_tokens r) (gr_cached_tokens r)"
    using assms(1,3) by (auto simp: finish_completion_def split: sum.splits)
  from sse_complete[OF assms(1,2), of mk model sha "co_receipt c" want, OF c(1)]
  show ?thesis unfolding c(2-4) .
qed

definition one_output :: "gen_event list" where
  "one_output =
     [Output True \<lparr>ro_text = ''hi'', ro_prompt_token_ids = Some [1, 2], ro_token_ids = Some [7],
        ro_finish_reason = None, ro_num_cached_tokens = NoAttr\<rparr>]"

definition plain_receipt :: "code_points \<Rightarrow> code_points \<Rightarrow> int \<Rightarrow> int \<Rightarrow> int \<Rightarrow> receipt result" where
  "plain_receipt =
     receipt_maker (\<lambda>s. s) (plain_world :: (mock, unit) request_world) token_headers ''body''"

theorem streamed_reply_matches_buffered_witness:
  "\<exists>ds c. finish_completion plain_receipt (\<lambda>s. s) ''m'' (generate True one_output) = Ok c \<and>
     sse_generator plain_receipt (\<lambda>s. s) ''m'' True (generate_stream True one_output) =
       (map SseDelta ds @ [SseFinish ''stop'' (usage_of 2 1 0), SseReceipt (co_receipt c), SseDone],
        None) \<and> concat ds = ''hi''"
proof -
  let ?r = "\<lparr>gr_text = ''hi'', gr_prompt_tokens = 2, gr_completion_tokens = 1,
    gr_finish_reason = ''stop'', gr_cached_tokens = 0\<rparr>"
  have gen: "generate True one_output = Inr ?r" "cumulative '''' one_output"
    by (simp_all add: one_output_def generate_def result_of_def count_tokens_def
      extract_cached_tokens_def openai_finish_reason_def)
  obtain c where c: "finish_completion plain_receipt (\<lambda>s. s) ''m'' (generate True one_output) = Ok c"
    "co_finish_reason c = ''stop''" "co_usage c = usage_of 2 1 0" "co_text c = ''hi''"
    by (simp add: gen finish_completion_def plain_receipt_def receipt_maker_def build_receipt_def
      plain_world_def Let_def)
  obtain ds where "sse_generator plain_receipt (\<lambda>s. s) ''m'' True (generate_stream True one_output) =
      (map SseDelta ds @ [SseFinish (co_finish_reason c) (co_usage c)] @
       (if True then [SseReceipt (co_receipt c)] else []) @ [SseDone], None)" "concat ds = co_text c"
    using streamed_reply_matches_buffered[OF gen c(1)] by blast
  with c show ?thesis by (intro exI[of _ ds] exI[of _ c]) simp
qed

section \<open>Which requests are answered\<close>

text \<open>
  C32. Only an admitted request touches the engine or gets an answer: it shows the bearer
  token, where one is configured, its parameters are in range, and it asks for no more tokens
  than the limit; an answer needs an engine that is available.
\<close>

theorem only_admitted_requests_answered:
  assumes "chat_completions ops sha cfg w hdr body ms args e = (e', reply) \<or>
      completions ops sha cfg w hdr body prompt args e = (e', reply)"
    and "e' \<noteq> e \<or> (\<exists>c. reply = Ok c)"
  shows "(ap_api_token cfg = [] \<or> hdr ''authorization'' = Some (''Bearer '' @ ap_api_token cfg)) \<and>
    valid_args args \<and> (ap_max_tokens_limit cfg \<le> 0 \<or> ca_max_tokens args \<le> ap_max_tokens_limit cfg) \<and>
    ((\<exists>c. reply = Ok c) \<longrightarrow>
      (\<exists>e1 prompt key res. op_available ops e1 \<and>
        ensure_model_loaded ops cfg (rw_ensure w) (ca_model args) (rw_wait_lock w) e = (e1, Inr ()) \<and>
        rw_generate w prompt key args e1 = (e', res)))"
proof -
  obtain g e1 where g: "guard_request ops cfg w hdr args e = (e1, g :: completion reply + unit)"
    "\<And>r. g = Inl r \<Longrightarrow> reply = r \<and> e' = e1"
    using handlers_guarded[OF assms(1)] by metis
  have adm: "require_auth cfg hdr = Inr () \<and> valid_args args \<and>
      check_max_tokens cfg (ca_max_tokens args) = Inr ()"
  proof (cases g)
    case (Inr u)
    from guard_passes[OF g(1)[unfolded Inr]] show ?thesis by blast
  next
    case (Inl r)
    with g(2) assms(2) guard_not_Ok[OF g(1)[unfolded Inl]] have "e1 \<noteq> e" by blast
    then show ?thesis using guard_refused_early[of cfg hdr args ops w e] g(1) by (metis fst_conv)
  qed
  have "\<exists>e1 prompt key res. op_available ops e1 \<and>
      ensure_model_loaded ops cfg (rw_ensure w) (ca_model args) (rw_wait_lock w) e = (e1, Inr ()) \<and>
      rw_generate w prompt key args e1 = (e', res)" if "reply = Ok c" for c
    using assms(1)[unfolded that] by (rule handler_answered) (auto dest!: guard_passes)
  with adm show ?thesis by (simp add: require_auth_passes check_max_tokens_passes) blast
qed

theorem only_admitted_requests_answered_witness:
  "\<exists>c. plain_reply token_headers = (running_mock, Ok c) \<and> ca_max_tokens plain_args \<le> 100 \<and>
     (\<exists>e1. op_available mock_ops e1 \<and>
       (\<exists>p k res. rw_generate plain_world p k plain_args e1 = (running_mock, res)))"
proof -
  obtain c where c: "plain_reply token_headers = (running_mock, Ok c)"
    using plain_reply_Ok by blast
  have "ap_max_tokens_limit token_config = 100" by (simp add: token_config_def)
  with only_admitted_requests_answered[OF disjI1[OF c(1)[unfolded plain_reply_def]]] c
  show ?thesis by fastforce
qed

section \<open>The signing key\<close>

text \<open>
  C35. A worker keeps its identity: the process goes on with the key it first took, and a key
  reported as persistent is the one every later process loads.
\<close>

theorem signing_key_is_stable:
  assumes "\<forall>k. cr_parse cr (cr_raw cr k) = Some k"
    and "get_signer cr w None None = (Inr s, cache, file)" and "sg_persistent s"
  shows "(\<forall>w' f. get_signer cr w' cache f = (Inr s, cache, f)) \<and>
    (\<forall>w'. kw_read_ok w' \<longrightarrow> get_signer cr w' None file = (Inr s, Some s, file))"
  using get_signer_stable[OF assms(2)] get_signer_persists[OF _ assms(2,3)] assms(1) by blast

definition good_disk :: "'k \<Rightarrow> 'k key_world" where
  "good_disk k =
     \<lparr>kw_read_ok = True, kw_makedirs_ok = True, kw_open_ok = True, kw_write_fails = None,
      kw_key = k, kw_ephemeral = k\<rparr>"

theorem signing_key_is_stable_witness:
  "get_signer plain_crypto (good_disk ()) None (Some ''key'') =
     (Inr \<lparr>sg_key = (), sg_persistent = True\<rparr>, Some \<lparr>sg_key = (), sg_persistent = True\<rparr>, Some ''key'')"
proof -
  let ?s = "\<lparr>sg_key = (), sg_persistent = True\<rparr>"
  have first: "get_signer plain_crypto (good_disk ()) None None = (Inr ?s, Some ?s, Some ''key'')"
    by (simp add: get_signer_def good_disk_def plain_crypto_def)
  have "\<forall>k. cr_parse plain_crypto (cr_raw plain_crypto k) = Some k" by (simp add: plain_crypto_def)
  from signing_key_is_stable[OF this first] show ?thesis by (simp add: good_disk_def)
qed

text \<open>
  A write of the key file that is cut short costs the worker its receipts for good: the
  process that did it signs with an ephemeral key, but every later one fails to load the file,
  and every receipt it should build raises.
\<close>

lemma short_key_file_blocks_signing:
  assumes "cr_parse cr (take n (cr_raw cr (kw_key w))) = None"
    and "kw_makedirs_ok w" and "kw_open_ok w" and "kw_write_fails w = Some n"
    and "get_signer cr w None None = (r, cache, file)" and "kw_read_ok w'"
  shows "(\<exists>s. r = Inr s \<and> \<not> sg_persistent s) \<and>
    (\<exists>m. build_receipt cr (fst (get_signer cr w' None file)) time rid model rsha osha p c k =
       Inl (ValueError m))"
  using get_signer_short_file[OF assms] by (auto simp: build_receipt_def)

section \<open>What goes over the wire\<close>

text \<open>
  C22. What is signed and what is sent are faithful and safe: fields of Unicode scalar values
  have the same signed bytes only if they are the same; the receipt header determines the
  receipt, signature included; it consists of base64 characters, so nothing a client sent can
  break the header; and the response to a buffered request determines the whole completion.
\<close>

theorem receipt_header_determines_receipt:
  assumes "valid_fields (rc_fields r)" and "valid_fields (rc_fields r')"
  shows "(canonical_payload (rc_fields r) = canonical_payload (rc_fields r') \<longleftrightarrow>
      rc_fields r = rc_fields r') \<and>
    (receipt_header r = receipt_header r' \<longleftrightarrow> r = r') \<and>
    set (receipt_header r) \<subseteq> insert (CHR ''='') (set b64_alphabet) \<and>
    (\<forall>c c' chat cid created. co_receipt c = r \<and> co_receipt c' = r' \<and>
      render_reply chat cid created (Ok c) = render_reply chat cid created (Ok c') \<longrightarrow> c = c')"
proof (intro conjI)
  show "\<forall>c c' chat cid created. co_receipt c = r \<and> co_receipt c' = r' \<and>
      render_reply chat cid created (Ok c) = render_reply chat cid created (Ok c') \<longrightarrow> c = c'"
    using render_Ok_inj assms by blast
qed (use canonical_payload_inj[OF assms] receipt_header_inj[OF assms] receipt_header_chars in
  \<open>auto simp del: set_simps\<close>)

definition some_receipt :: receipt where
  "some_receipt = \<lparr>rc_v = 1, rc_fields = some_fields, rc_sig = ''s''\<rparr>"

theorem receipt_header_determines_receipt_witness:
  "receipt_header some_receipt \<noteq> receipt_header (some_receipt\<lparr>rc_sig := ''t''\<rparr>) \<and>
   CHR 0x0A \<notin> set (receipt_header some_receipt) \<and>
   canonical_payload (some_fields\<lparr>rf_model := [0x1F600, 92, 34]\<rparr>) \<noteq> canonical_payload some_fields"
proof -
  have valid: "valid_fields (rc_fields some_receipt)"
    "valid_fields (rc_fields (some_receipt\<lparr>rc_sig := ''t''\<rparr>))"
    by (simp_all add: some_receipt_def some_fields_def valid_fields_def codes_def scalar_def surrogate_def)
  let ?r = "\<lparr>rc_v = 1, rc_fields = some_fields\<lparr>rf_model := [0x1F600, 92, 34]\<rparr>, rc_sig = ''s''\<rparr>"
  have "valid_fields (rc_fields ?r)"
    by (simp add: some_fields_def valid_fields_def codes_def scalar_def surrogate_def)
  from receipt_header_determines_receipt[OF this valid(1)]
  have "canonical_payload (some_fields\<lparr>rf_model := [0x1F600, 92, 34]\<rparr>) \<noteq> canonical_payload some_fields"
    by (simp add: some_receipt_def some_fields_def)
  moreover have "some_receipt \<noteq> some_receipt\<lparr>rc_sig := ''t''\<rparr>" by (simp add: some_receipt_def)
  ultimately show ?thesis
    using receipt_header_determines_receipt[OF valid] by (auto simp: b64_alphabet_def)
qed

text \<open>
  C36. The bytes of an event stream are its events: the lines that are not empty are the
  payloads, in order, each after \<open>data: \<close>; the last one of a stream that is not broken off is
  [DONE], which comes once; and streams with the same bytes have the same events.
\<close>

theorem stream_bytes_carry_events:
  assumes "chat_stream ops sha cfg w hdr body ms args e = (e', Ok (evs, None))"
    and "list_all valid_event evs"
  shows "(\<exists>front. evs = front @ [SseDone] \<and> SseDone \<notin> set front \<and>
      filter (\<lambda>l. l \<noteq> []) (split_on line_feed (sse_bytes cid created (ca_model args) evs)) =
        map (\<lambda>ev. ''data: '' @ sse_payload cid created (ca_model args) ev) front @ [''data: [DONE]'']) \<and>
    (\<forall>evs'. list_all valid_event evs' \<and>
      sse_bytes cid created (ca_model args) evs' = sse_bytes cid created (ca_model args) evs \<longrightarrow>
      evs' = evs)"
proof -
  obtain stream where
    "sse_generator (receipt_maker sha w hdr body) sha (ca_model args)
       (hdr ''x-om-receipt-req'' = Some ''1'') stream = (evs, None)"
    using assms(1) by (rule chat_stream_events)
  from sse_done_once[OF this] obtain front where
    f: "evs = front @ [SseDone]" "SseDone \<notin> set front" by blast
  let ?data = "\<lambda>ev. ''data: '' @ sse_payload cid created (ca_model args) ev"
  have "?data SseDone = ''data: [DONE]''" by (simp add: sse_payload_def)
  then have "filter (\<lambda>l. l \<noteq> []) (split_on line_feed (sse_bytes cid created (ca_model args) evs)) =
      map ?data front @ [''data: [DONE]'']"
    unfolding sse_bytes_lines f(1) by simp
  with f show ?thesis using sse_bytes_inj[OF _ assms(2)] by blast
qed

definition plain_stream :: "mock \<times> (sse_event list \<times> py_exn option) reply" where
  "plain_stream =
     chat_stream mock_ops (\<lambda>s. s) token_config
       (plain_world\<lparr>rw_stream := \<lambda>p k a e. (e, [delta_chunk ''hi'', closing_chunk plain_answer], None)\<rparr>)
       token_headers ''body'' [\<lparr>cm_role = ''user'', cm_content = ''hello''\<rparr>] plain_args running_mock"

lemma plain_stream_Ok:
  "plain_stream = (running_mock, Ok ([SseDelta ''hi'', SseFinish ''stop'' (usage_of 2 1 0), SseDone], None))"
  by (simp add: plain_stream_def chat_stream_def plain_defs sse_generator_def sse_end_def
      chunk_event_def final_usage_def delta_chunk_def closing_chunk_def Let_def)

theorem stream_bytes_carry_events_witness:
  "\<exists>a b. filter (\<lambda>l. l \<noteq> []) (split_on line_feed (sse_bytes ''c'' 0 ''m''
     [SseDelta ''hi'', SseFinish ''stop'' (usage_of 2 1 0), SseDone])) = [a, b, ''data: [DONE]'']"
proof -
  have m: "ca_model plain_args = ''m''" by (simp add: plain_args_def)
  show ?thesis
    using stream_bytes_carry_events[OF plain_stream_Ok[unfolded plain_stream_def], of "''c''" 0]
    unfolding m by (auto simp: append_eq_Cons_conv)
qed

end
