(* ===== verification/Model_Store.thy ===== *)
theory Model_Store
  imports Prelude "HOL-Library.Sublist" "HOL-Library.AList"
begin

text \<open>
  The model files: \<open>model/manager.py\<close>, the two FOC clients \<open>model/foc_mock.py\<close> and
  \<open>model/foc_real.py\<close>, and \<open>model/local_loader.py\<close>, over a file system that is a list of
  (path, node) entries.

  A path is the list of its components from the root.  Where an archive is extracted symbolic
  links are followed; the other operations name their paths directly, and \<open>..\<close> in them
  drops a component.  The bridge (a Node.js service) and the tar library are parameters: their
  replies and the members read.
\<close>

section \<open>Paths and files\<close>

type_synonym path = "string list"

datatype node = Dir | File string | Link string

type_synonym fs = "(path \<times> node) list"

definition path_parts :: "string \<Rightarrow> path" where
  "path_parts s = filter (\<lambda>c. c \<noteq> '''' \<and> c \<noteq> ''.'') (split_on CHR ''/'' s)"

definition up :: "path \<Rightarrow> string \<Rightarrow> path" where
  "up p c = (if c = ''..'' then butlast p else p @ [c])"

definition os_resolve :: "path \<Rightarrow> path" where
  "os_resolve p = foldl up [] p"

text \<open>\<open>base / s\<close>, resolved: an absolute \<open>s\<close> starts from the root.\<close>

definition join_path :: "path \<Rightarrow> string \<Rightarrow> path" where
  "join_path base s =
     os_resolve ((if s \<noteq> [] \<and> hd s = CHR ''/'' then [] else base) @ path_parts s)"

definition path_str :: "path \<Rightarrow> string" where
  "path_str p = CHR ''/'' # join_with ''/'' p"

definition node_at :: "fs \<Rightarrow> path \<Rightarrow> node option" where
  "node_at fs p = (if p = [] then Some Dir else map_of fs p)"

definition exists_at :: "fs \<Rightarrow> path \<Rightarrow> bool" where
  "exists_at fs p \<longleftrightarrow> node_at fs p \<noteq> None"

text \<open>\<open>shutil.rmtree(p, ignore_errors=True)\<close>: only a directory is removed.\<close>

definition rmtree :: "path \<Rightarrow> fs \<Rightarrow> fs" where
  "rmtree p fs =
     (if node_at fs p = Some Dir then filter (\<lambda>(q, n). \<not> prefix p q) fs else fs)"

definition unlink :: "path \<Rightarrow> fs \<Rightarrow> fs" where
  "unlink p fs = filter (\<lambda>(q, n). q \<noteq> p) fs"

definition put :: "path \<Rightarrow> node \<Rightarrow> fs \<Rightarrow> fs" where
  "put p n fs = AList.update p n fs"

definition mkdir :: "path \<Rightarrow> fs \<Rightarrow> fs" where
  "mkdir p fs = (if exists_at fs p then fs else put p Dir fs)"

text \<open>\<open>mkdir(parents=True, exist_ok=True)\<close>\<close>

definition mkdirs :: "path \<Rightarrow> fs \<Rightarrow> fs" where
  "mkdirs p fs = fold mkdir (prefixes p) fs"

text \<open>Renaming a directory to a name that is free.\<close>

definition move :: "path \<Rightarrow> path \<Rightarrow> fs \<Rightarrow> fs" where
  "move src dst fs =
     map (\<lambda>(q, n). if prefix src q then (dst @ drop (length src) q, n) else (q, n)) fs"

section \<open>The cache\<close>

definition weight_suffixes :: "string list" where
  "weight_suffixes = [''.safetensors'', ''.bin'', ''.pt'', ''.gguf'', ''.index.json'']"

definition child_names :: "fs \<Rightarrow> path \<Rightarrow> string list" where
  "child_names fs p =
     map (\<lambda>(q, n). last q) (filter (\<lambda>(q, n). q \<noteq> [] \<and> butlast q = p) fs)"

definition is_model_complete :: "fs \<Rightarrow> path \<Rightarrow> bool" where
  "is_model_complete fs p \<longleftrightarrow>
     node_at fs p = Some Dir \<and> exists_at fs (p @ [''config.json'']) \<and>
     list_ex (\<lambda>s. list_ex (\<lambda>c. suffix s c) (child_names fs p)) weight_suffixes"

record manifest =
  mf_model_id :: string
  mf_size_bytes :: int
  mf_checksum_sha256 :: string
  mf_source_uri :: string

text \<open>A FOC client: the three methods of the abstract class, with their effect on the files.\<close>

record foc_client =
  fc_available :: "string \<Rightarrow> bool"
  fc_resolve :: "string \<Rightarrow> manifest result"
  fc_download :: "manifest \<Rightarrow> path \<Rightarrow> fs \<Rightarrow> fs \<times> string result"

definition raw_cached_path :: "path \<Rightarrow> string \<Rightarrow> path" where
  "raw_cached_path cache_dir model_id =
     cache_dir @ path_parts (replace_char CHR ''/'' ''--'' model_id)"

definition cached_path :: "path \<Rightarrow> string \<Rightarrow> path" where
  "cached_path cache_dir model_id = os_resolve (raw_cached_path cache_dir model_id)"

text \<open>\<open>ModelManager.ensure_model\<close>: the files, \<open>_loaded_model\<close>, and the path returned.\<close>

definition ensure_model ::
  "foc_client \<Rightarrow> path \<Rightarrow> string \<Rightarrow> fs \<times> string option \<Rightarrow> (fs \<times> string option) \<times> string result" where
  "ensure_model foc cache_dir model_id st =
     (let (fs, loaded) = st;
          p = cached_path cache_dir model_id in
      if is_model_complete fs p
      then ((fs, Some model_id), Inr (path_str (raw_cached_path cache_dir model_id)))
      else
        (let fs1 = (if exists_at fs p then rmtree p fs else fs) in
         if fc_available foc model_id
         then (case fc_resolve foc model_id of
                 Inl x \<Rightarrow> ((fs1, loaded), Inl x)
               | Inr m \<Rightarrow>
                   (case fc_download foc m p fs1 of
                      (fs2, Inl x) \<Rightarrow> ((fs2, loaded), Inl x)
                    | (fs2, Inr path) \<Rightarrow> ((fs2, Some model_id), Inr path)))
         else ((fs1, Some model_id), Inr model_id)))"

section \<open>The mock client\<close>

text \<open>\<open>s.replace(pat, "")\<close> for a non-empty pattern.\<close>

function remove_sub :: "string \<Rightarrow> string \<Rightarrow> string" where
  "remove_sub pat s =
     (case s of
        [] \<Rightarrow> []
      | c # cs \<Rightarrow>
          if pat \<noteq> [] \<and> prefix pat s then remove_sub pat (drop (length pat) s)
          else c # remove_sub pat cs)"
  by pat_completeness auto
termination
  by (relation "measure (\<lambda>(pat, s). length s)") (auto simp: diff_less_Suc)

declare remove_sub.simps [simp del]

text \<open>\<open>str(Path(s))\<close>\<close>

definition path_norm :: "string \<Rightarrow> string" where
  "path_norm s =
     (let parts = path_parts s in
      if prefix ''//'' s \<and> \<not> prefix ''///'' s then ''//'' @ join_with ''/'' parts
      else if prefix ''/'' s then ''/'' @ join_with ''/'' parts
      else if parts = [] then ''.'' else join_with ''/'' parts)"

definition file_scheme :: string where "file_scheme = ''file://''"

definition mock_resolve_model :: "(string \<times> string) list \<Rightarrow> string \<Rightarrow> manifest result" where
  "mock_resolve_model registry model_id =
     (case map_of registry model_id of
        None \<Rightarrow> Inl (ValueError (''Model '' @ model_id @ '' not found in mock registry''))
      | Some path \<Rightarrow>
          Inr \<lparr>mf_model_id = model_id, mf_size_bytes = 0, mf_checksum_sha256 = ''mock-checksum'',
               mf_source_uri = file_scheme @ path_norm path\<rparr>)"

definition mock_download_weights :: "manifest \<Rightarrow> path \<Rightarrow> fs \<Rightarrow> fs \<times> string result" where
  "mock_download_weights m dest fs = (fs, Inr (path_norm (remove_sub file_scheme (mf_source_uri m))))"

definition mock_foc :: "(string \<times> string) list \<Rightarrow> foc_client" where
  "mock_foc registry =
     \<lparr>fc_available = (\<lambda>i. map_of registry i \<noteq> None),
      fc_resolve = mock_resolve_model registry, fc_download = mock_download_weights\<rparr>"

section \<open>The real client\<close>

text \<open>An entry of the configured registry: CIDs alone, or a dict with an optional digest.\<close>

datatype cids = OneCid string | ManyCids "string list"
datatype cid_entry = Plain cids | Pinned cids "string option"

fun cid_list :: "cids \<Rightarrow> string list" where
  "cid_list (OneCid c) = [c]"
| "cid_list (ManyCids cs) = cs"

fun entry_cids :: "cid_entry \<Rightarrow> string list" where
  "entry_cids (Plain c) = cid_list c"
| "entry_cids (Pinned c sha) = cid_list c"

fun entry_sha :: "cid_entry \<Rightarrow> string option" where
  "entry_sha (Plain c) = None"
| "entry_sha (Pinned c sha) =
     (case sha of Some (x # xs) \<Rightarrow> Some (lower (x # xs)) | _ \<Rightarrow> None)"

definition real_registry :: "(string \<times> cid_entry) list \<Rightarrow> (string \<times> string list) list" where
  "real_registry reg = map (\<lambda>(i, e). (i, entry_cids e)) reg"

definition real_sha256 :: "(string \<times> cid_entry) list \<Rightarrow> (string \<times> string) list" where
  "real_sha256 reg =
     concat (map (\<lambda>(i, e). case entry_sha e of None \<Rightarrow> [] | Some s \<Rightarrow> [(i, s)]) reg)"

definition get_cids :: "(string \<times> cid_entry) list \<Rightarrow> string \<Rightarrow> string list option" where
  "get_cids reg model_id = map_of (real_registry reg) model_id"

text \<open>The reply of \<open>/resolve\<close>: status and the field \<open>available\<close>; \<open>None\<close> for any exception.\<close>

definition real_check_availability ::
  "(string \<times> cid_entry) list \<Rightarrow> (string \<Rightarrow> (int \<times> bool option) option) \<Rightarrow> string \<Rightarrow> bool" where
  "real_check_availability reg bridge model_id =
     (case get_cids reg model_id of
        None \<Rightarrow> False
      | Some [] \<Rightarrow> False
      | Some (c # cs) \<Rightarrow>
          (case bridge c of
             Some (code, avail) \<Rightarrow> code = 200 \<and> avail = Some True
           | None \<Rightarrow> False))"

definition real_resolve_model :: "(string \<times> cid_entry) list \<Rightarrow> string \<Rightarrow> manifest result" where
  "real_resolve_model reg model_id =
     (case get_cids reg model_id of
        Some (c # cs) \<Rightarrow>
          Inr \<lparr>mf_model_id = model_id, mf_size_bytes = 0,
               mf_checksum_sha256 =
                 (case map_of (real_sha256 reg) model_id of None \<Rightarrow> '''' | Some s \<Rightarrow> s),
               mf_source_uri = join_with '','' (c # cs)\<rparr>
      | _ \<Rightarrow> Inl (ValueError (''Model '' @ model_id @ '' not in piece_cid_registry'')))"

subsection \<open>\<open>_safe_extractall\<close>\<close>

datatype member_kind = Regular string | Directory | Symlink string | Hardlink string

record tar_member =
  tm_name :: string
  tm_kind :: member_kind

text \<open>
  Following symbolic links, from the directory \<open>cur\<close>, along the components left; the system
  gives up after 40 links.
\<close>

definition link_at :: "fs \<Rightarrow> path \<Rightarrow> string option" where
  "link_at fs p = (case node_at fs p of Some (Link l) \<Rightarrow> Some l | _ \<Rightarrow> None)"

definition absolute :: "string \<Rightarrow> bool" where
  "absolute s \<longleftrightarrow> s \<noteq> [] \<and> hd s = CHR ''/''"

function walk :: "nat \<Rightarrow> fs \<Rightarrow> path \<Rightarrow> path \<Rightarrow> path option" where
  "walk n fs cur [] = Some cur"
| "walk n fs cur (c # cs) =
     (if c = ''..'' then walk n fs (butlast cur) cs
      else case link_at fs (cur @ [c]) of
        None \<Rightarrow> walk n fs (cur @ [c]) cs
      | Some l \<Rightarrow>
          (if n = 0 then None
           else walk (n - 1) fs (if absolute l then [] else cur) (path_parts l @ cs)))"
  by pat_completeness auto
termination
  by (relation "measures [\<lambda>(n, fs, cur, cs). n, \<lambda>(n, fs, cur, cs). length cs]") auto

definition max_links :: nat where "max_links = 40"

text \<open>\<open>(base / s).resolve()\<close>\<close>

definition resolve_in :: "fs \<Rightarrow> path \<Rightarrow> string \<Rightarrow> path option" where
  "resolve_in fs base s =
     walk max_links fs [] ((if absolute s then [] else base) @ path_parts s)"

text \<open>
  The manual guard, for a tar library without extraction filters.  All members are checked
  before the first is extracted.
\<close>

definition inside :: "path \<Rightarrow> path option \<Rightarrow> bool" where
  "inside dest p \<longleftrightarrow> (\<exists>q. p = Some q \<and> strict_prefix dest q)"

definition member_safe :: "fs \<Rightarrow> path \<Rightarrow> tar_member \<Rightarrow> bool" where
  "member_safe fs dest m =
     (let target = resolve_in fs dest (tm_name m);
          link_ok = (\<lambda>l. case target of None \<Rightarrow> False
            | Some t \<Rightarrow> inside dest (resolve_in fs (butlast t) l)) in
      (target = Some dest \<or> inside dest target) \<and>
      (case tm_kind m of Symlink l \<Rightarrow> link_ok l | Hardlink l \<Rightarrow> link_ok l | _ \<Rightarrow> True))"

text \<open>
  What \<open>extractall\<close> then does with a member, \<open>None\<close> where it raises: a file is written
  through the links on its path, a symbolic link is made as it is, and a hard link is made to
  the file that its link name gives from the root of the archive (the second name is a copy
  here, so that a later write to it is not seen under the first).
\<close>

definition hardlink_source :: "fs \<Rightarrow> path \<Rightarrow> string \<Rightarrow> path option" where
  "hardlink_source fs dest l = resolve_in fs dest l"

definition link_place :: "fs \<Rightarrow> path \<Rightarrow> string \<Rightarrow> path option" where
  "link_place fs dest name =
     (let p = (if absolute name then [] else dest) @ path_parts name in
      map_option (\<lambda>d. d @ [last p]) (walk max_links fs [] (butlast p)))"

definition extract_member :: "path \<Rightarrow> tar_member \<Rightarrow> fs \<Rightarrow> fs option" where
  "extract_member dest m fs =
     (case tm_kind m of
        Regular s \<Rightarrow> map_option (\<lambda>t. put t (File s) fs) (resolve_in fs dest (tm_name m))
      | Directory \<Rightarrow> map_option (\<lambda>t. mkdir t fs) (resolve_in fs dest (tm_name m))
      | Symlink l \<Rightarrow> map_option (\<lambda>t. put t (Link l) fs) (link_place fs dest (tm_name m))
      | Hardlink l \<Rightarrow>
          (case (hardlink_source fs dest l, link_place fs dest (tm_name m)) of
             (Some src, Some t) \<Rightarrow>
               (case node_at fs src of Some (File s) \<Rightarrow> Some (put t (File s) fs) | _ \<Rightarrow> None)
           | _ \<Rightarrow> None))"

text \<open>The states of the files on the way; \<open>fail\<close> is after how many members the disk is full.\<close>

fun extract_all ::
  "nat option \<Rightarrow> path \<Rightarrow> tar_member list \<Rightarrow> fs \<Rightarrow> fs list \<times> unit result" where
  "extract_all fail dest [] fs = ([fs], Inr ())"
| "extract_all fail dest (m # ms) fs =
     (if fail = Some 0 then ([fs], Inl (OSError ''no space left on device''))
      else case extract_member dest m fs of
        None \<Rightarrow> ([fs], Inl (OSError ''extraction failed''))
      | Some fs' \<Rightarrow>
          (let (ss, r) = extract_all (map_option (\<lambda>n. n - 1) fail) dest ms fs' in (fs # ss, r)))"

text \<open>
  The tar library: with extraction filters it goes through a list of states of the files on
  its own; without (the keyword raises \<open>TypeError\<close>) the guard and \<open>extract_all\<close> run.
\<close>

datatype tar_library = DataFilter "fs \<Rightarrow> fs list \<times> unit result" | NoFilter "nat option"

definition safe_extractall ::
  "tar_library \<Rightarrow> path \<Rightarrow> tar_member list \<Rightarrow> fs \<Rightarrow> fs list \<times> unit result" where
  "safe_extractall lib dest ms fs =
     (case lib of
        DataFilter f \<Rightarrow> f fs
      | NoFilter fail \<Rightarrow>
          if list_all (member_safe fs dest) ms then extract_all fail dest ms fs
          else ([fs], Inl (RuntimeError ''unsafe tar member escapes destination'')))"

subsection \<open>\<open>download_weights\<close>\<close>

text \<open>
  The bridge's reply to \<open>/download-model\<close>: an exception of the client, or a status and the
  field \<open>success\<close>; and whether the archive opens, with its members.
\<close>

record bridge_world =
  bw_reply :: "(int \<times> bool) result"
  bw_written :: "string option"                \<comment> \<open>what the bridge left at \<open>destPath\<close>\<close>
  bw_tar :: "tar_member list result"
  bw_library :: tar_library
  bw_rename_ok :: bool

definition tmp_archive :: "path \<Rightarrow> string \<Rightarrow> path" where
  "tmp_archive dest model_id =
     butlast dest @ [''.tmp'', ''foc-model-'' @ replace_char CHR ''/'' ''-'' model_id @ ''.tar.gz'']"

definition extract_dir :: "path \<Rightarrow> path" where
  "extract_dir dest = butlast dest @ [last dest @ ''.extracting'']"

definition bridge_check :: "bridge_world \<Rightarrow> unit result" where
  "bridge_check w =
     (case bw_reply w of
        Inl x \<Rightarrow> Inl x
      | Inr (code, success) \<Rightarrow>
          if code = 422 then Inl (RuntimeError ''weight integrity check failed'')
          else if code < 200 \<or> 300 \<le> code then Inl (HTTPStatusError code)
          else if \<not> success then Inl (RuntimeError ''Bridge download failed'')
          else Inr ())"

text \<open>The states of the files from the reply on, step by step, and how the body ends.\<close>

definition install_states :: "bridge_world \<Rightarrow> path \<Rightarrow> fs \<Rightarrow> fs list \<times> unit result" where
  "install_states w dest fs =
     (case bridge_check w of
        Inl x \<Rightarrow> ([fs], Inl x)
      | Inr _ \<Rightarrow>
          (let x = extract_dir dest; f1 = rmtree x fs; f2 = mkdir x f1 in
           case bw_tar w of
             Inl err \<Rightarrow> ([fs, f1, f2], Inl err)
           | Inr ms \<Rightarrow>
               (let (ss, r) = safe_extractall (bw_library w) x ms f2;
                    f3 = (if ss = [] then f2 else last ss) in
                case r of
                  Inl err \<Rightarrow> ([fs, f1, f2] @ ss, Inl err)
                | Inr _ \<Rightarrow>
                    (let f4 = rmtree dest f3 in
                     if bw_rename_ok w
                     then ([fs, f1, f2] @ ss @ [f4, move x dest f4], Inr ())
                     else ([fs, f1, f2] @ ss @ [f4], Inl (OSError ''rename failed''))))))"

definition cleanup_partial :: "path \<Rightarrow> fs \<Rightarrow> fs" where
  "cleanup_partial dest fs = rmtree dest (rmtree (extract_dir dest) fs)"

definition real_download_weights ::
  "bridge_world \<Rightarrow> manifest \<Rightarrow> path \<Rightarrow> fs \<Rightarrow> fs \<times> string result" where
  "real_download_weights w m dest fs =
     (let tmp = tmp_archive dest (mf_model_id m);
          f0 = mkdirs (butlast tmp) fs;
          f1 = (case bw_written w of None \<Rightarrow> f0 | Some s \<Rightarrow> put tmp (File s) f0);
          (ss, r) = install_states w dest f1 in
      case r of
        Inr _ \<Rightarrow> (unlink tmp (last ss), Inr (path_str dest))
      | Inl x \<Rightarrow> (unlink tmp (cleanup_partial dest (last ss)), Inl x))"

definition real_foc ::
  "(string \<times> cid_entry) list \<Rightarrow> (string \<Rightarrow> (int \<times> bool option) option) \<Rightarrow>
   (string list \<Rightarrow> string \<Rightarrow> bridge_world) \<Rightarrow> foc_client" where
  "real_foc reg resolve download =
     \<lparr>fc_available = real_check_availability reg resolve,
      fc_resolve = real_resolve_model reg,
      fc_download = (\<lambda>m. real_download_weights
        (download (split_on CHR '','' (mf_source_uri m)) (mf_checksum_sha256 m)) m)\<rparr>"

text \<open>\<open>create_foc_client\<close>\<close>

definition create_foc_client ::
  "string \<Rightarrow> (string \<times> string) list \<Rightarrow> (string \<times> cid_entry) list \<Rightarrow>
   (string \<Rightarrow> (int \<times> bool option) option) \<Rightarrow> (string list \<Rightarrow> string \<Rightarrow> bridge_world) \<Rightarrow>
   foc_client result" where
  "create_foc_client backend mock_reg real_reg resolve download =
     (if backend = ''mock'' then Inr (mock_foc mock_reg)
      else if backend = ''real'' then Inr (real_foc real_reg resolve download)
      else Inl (ValueError (''Unknown FOC backend: '' @ backend)))"

section \<open>The local loader\<close>

text \<open>
  \<open>find_local_model\<close>: the path itself (from the working directory \<open>cwd\<close>), then each
  directory searched.  A non-empty \<open>search_dirs\<close> is extended in place, so the second result
  is what the caller's list holds afterwards.
\<close>

definition find_local_model ::
  "path \<Rightarrow> path \<Rightarrow> fs \<Rightarrow> string \<Rightarrow> path list option \<Rightarrow> string option \<times> path list option" where
  "find_local_model cwd home fs model_path search_dirs =
     (if exists_at fs (join_path cwd model_path)
      then (Some (path_str (join_path cwd model_path)), search_dirs)
      else
        (let dirs = (case search_dirs of None \<Rightarrow> [] | Some ds \<Rightarrow> ds) @
               [[''models''], home @ [''.cache'', ''huggingface'', ''hub'']];
             found = find (\<lambda>d. exists_at fs (cached_path d model_path)) dirs in
         (map_option (\<lambda>d. path_str (raw_cached_path d model_path)) found,
          if search_dirs = None \<or> search_dirs = Some [] then search_dirs else Some dirs)))"

end
