(* ===== verification/Store_Laws.thy ===== *)
theory Store_Laws
  imports Model_Store
begin

text \<open>
  What the model store guarantees: where it writes and deletes, that an installation is atomic
  and a failed one leaves nothing, the round trips of the two clients, and what the tar guard
  refuses.
\<close>

section \<open>Lookups after an operation\<close>

lemma node_at_Cons [simp]:
  "node_at ((q, n) # fs) p = (if p = [] then Some Dir else if q = p then Some n else node_at fs p)"
  by (simp add: node_at_def)

lemma node_at_Nil [simp]: "node_at [] p = (if p = [] then Some Dir else None)"
  by (simp add: node_at_def)

lemma node_at_filter:
  "P p \<Longrightarrow> node_at (filter (\<lambda>(q, n). P q) fs) p = node_at fs p"
  by (induction fs) (auto simp: node_at_def)

lemma node_at_filter_out:
  "\<not> P p \<Longrightarrow> p \<noteq> [] \<Longrightarrow> node_at (filter (\<lambda>(q, n). P q) fs) p = None"
  by (induction fs) (auto simp: node_at_def)

lemma node_at_rmtree:
  assumes "p \<noteq> []"
  shows "node_at (rmtree p fs) q =
    (if node_at fs p = Some Dir \<and> prefix p q then None else node_at fs q)"
  using assms node_at_filter[of "\<lambda>q. \<not> prefix p q" q fs]
    node_at_filter_out[of "\<lambda>q. \<not> prefix p q" q fs]
  by (cases "q = []") (auto simp: rmtree_def)

lemma node_at_root [simp]: "node_at fs [] = Some Dir"
  by (simp add: node_at_def)

lemma node_at_put [simp]:
  "node_at (put p n fs) q = (if q = [] then Some Dir else if q = p then Some n else node_at fs q)"
  by (simp add: node_at_def put_def update_conv')

lemma node_at_mkdir:
  "node_at (mkdir p fs) q = (if q = p \<and> node_at fs p = None then Some Dir else node_at fs q)"
  by (auto simp: mkdir_def exists_at_def)

lemma node_at_unlink:
  "q \<noteq> [] \<Longrightarrow> node_at (unlink p fs) q = (if q = p then None else node_at fs q)"
  using node_at_filter[of "\<lambda>q. q \<noteq> p" q fs] node_at_filter_out[of "\<lambda>q. q \<noteq> p" q fs]
  by (auto simp: unlink_def)

lemma node_at_mkdirs_keeps:
  "node_at fs q \<noteq> None \<Longrightarrow> node_at (mkdirs p fs) q = node_at fs q"
proof -
  have "node_at (fold mkdir ps fs) q = node_at fs q" if "node_at fs q \<noteq> None" for ps fs
    using that by (induction ps arbitrary: fs) (auto simp: node_at_mkdir)
  then show "node_at fs q \<noteq> None \<Longrightarrow> node_at (mkdirs p fs) q = node_at fs q"
    by (simp add: mkdirs_def)
qed

lemma node_at_mkdirs_other:
  "\<not> prefix q p \<Longrightarrow> node_at (mkdirs p fs) q = node_at fs q"
proof -
  have "node_at (fold mkdir ps fs) q = node_at fs q" if "q \<notin> set ps" for ps fs
    using that by (induction ps arbitrary: fs) (auto simp: node_at_mkdir)
  then show "\<not> prefix q p \<Longrightarrow> node_at (mkdirs p fs) q = node_at fs q"
    by (simp add: mkdirs_def)
qed

section \<open>Paths\<close>

lemma os_resolve_plain: "''..'' \<notin> set p \<Longrightarrow> os_resolve p = p"
proof -
  have "foldl up acc p = acc @ p" if "''..'' \<notin> set p" for acc
    using that by (induction p arbitrary: acc) (auto simp: up_def)
  then show "''..'' \<notin> set p \<Longrightarrow> os_resolve p = p" by (simp add: os_resolve_def)
qed

lemma os_resolve_append: "os_resolve (p @ q) = foldl up (os_resolve p) q"
  by (simp add: os_resolve_def)

abbreviation (input) dashed :: "string \<Rightarrow> string" where
  "dashed i \<equiv> replace_char CHR ''/'' ''--'' i"

lemma path_parts_dashed:
  "path_parts (dashed i) = (if dashed i \<in> {'''', ''.''} then [] else [dashed i])"
proof -
  have "CHR ''/'' \<notin> set (dashed i)" by (rule replace_char_removes) simp
  then show ?thesis by (simp add: path_parts_def)
qed

text \<open>Any id but three is one directory of the cache.\<close>

lemma cached_path_child:
  assumes "''..'' \<notin> set cache_dir" and "dashed i \<notin> {'''', ''.'', ''..''}"
  shows "cached_path cache_dir i = cache_dir @ [dashed i]"
  using assms
  by (simp add: cached_path_def raw_cached_path_def path_parts_dashed os_resolve_append
      os_resolve_plain up_def)

lemma cached_path_dotdot:
  "''..'' \<notin> set cache_dir \<Longrightarrow> cached_path cache_dir ''..'' = butlast cache_dir"
proof -
  assume a: "''..'' \<notin> set cache_dir"
  have "path_parts (dashed ''..'') = [''..'']" by (simp add: path_parts_def)
  with a show ?thesis
    by (simp add: cached_path_def raw_cached_path_def os_resolve_append os_resolve_plain up_def)
qed

section \<open>What \<open>ensure_model\<close> touches\<close>

lemma rmtree_outside:
  "\<not> prefix p q \<Longrightarrow> node_at (rmtree p fs) q = node_at fs q"
  by (cases "p = []") (simp_all add: node_at_rmtree)

lemma ensure_model_confined:
  assumes "''..'' \<notin> set cache_dir" and "dashed i \<notin> {'''', ''.'', ''..''}"
    and "ensure_model (mock_foc registry) cache_dir i (fs, l) = ((fs', l'), r)"
    and "\<not> prefix (cache_dir @ [dashed i]) q"
  shows "node_at fs' q = node_at fs q"
  using assms(3,4) cached_path_child[OF assms(1,2)] rmtree_outside[of "cache_dir @ [dashed i]" q fs]
  by (auto simp: ensure_model_def mock_foc_def mock_download_weights_def Let_def
      split: if_splits sum.splits)

text \<open>
  The id \<open>..\<close> is the parent of the cache: unless that is itself a complete model, all of it is
  removed, the cache included.
\<close>

lemma ensure_model_dotdot:
  assumes "''..'' \<notin> set cache_dir" and "butlast cache_dir \<noteq> []"
    and "node_at fs (butlast cache_dir) = Some Dir"
    and "node_at fs (butlast cache_dir @ [''config.json'']) = None"
    and "\<not> fc_available foc ''..''"
    and "ensure_model foc cache_dir ''..'' (fs, l) = ((fs', l'), r)"
    and "prefix (butlast cache_dir) q"
  shows "node_at fs' q = None"
  using assms node_at_rmtree[OF assms(2), of fs q]
  by (auto simp: ensure_model_def cached_path_dotdot is_model_complete_def exists_at_def Let_def)

section \<open>Round trips\<close>

lemma real_resolve_cids:
  assumes "real_resolve_model reg i = Inr m" and "get_cids reg i = Some cs"
    and "\<forall>c \<in> set cs. CHR '','' \<notin> set c"
  shows "split_on CHR '','' (mf_source_uri m) = cs"
  using assms split_join_with[of cs "CHR '',''"]
  by (auto simp: real_resolve_model_def split: option.splits list.splits)

lemma remove_sub_absent: "pat \<noteq> [] \<Longrightarrow> \<not> str_contains pat s \<Longrightarrow> remove_sub pat s = s"
proof (induction s)
  case Nil
  then show ?case by (simp add: remove_sub.simps)
next
  case (Cons c s)
  then show ?case by (subst remove_sub.simps) simp
qed

lemma remove_sub_prefix: "pat \<noteq> [] \<Longrightarrow> remove_sub pat (pat @ s) = remove_sub pat s"
  by (subst remove_sub.simps) (cases pat; simp)

text \<open>A normal path stays as it is.\<close>

definition clean_parts :: "string list \<Rightarrow> bool" where
  "clean_parts ps \<longleftrightarrow> (\<forall>c \<in> set ps. c \<noteq> [] \<and> c \<noteq> ''.'' \<and> CHR ''/'' \<notin> set c)"

lemma clean_path_parts: "clean_parts (path_parts s)"
  using split_on_parts[of _ "CHR ''/''" s] by (auto simp: clean_parts_def path_parts_def)

lemma path_parts_join: "clean_parts ps \<Longrightarrow> path_parts (join_with ''/'' ps) = ps"
proof (cases ps)
  case (Cons c cs)
  assume "clean_parts ps"
  with Cons have "split_on CHR ''/'' (join_with ''/'' ps) = ps"
    by (intro split_join_with) (auto simp: clean_parts_def)
  with \<open>clean_parts ps\<close> show ?thesis
    by (simp add: path_parts_def clean_parts_def filter_id_conv)
qed (simp add: path_parts_def)

lemma path_parts_slash: "path_parts (CHR ''/'' # s) = path_parts s"
  by (simp add: path_parts_def)

lemma join_no_slash: "clean_parts ps \<Longrightarrow> \<not> prefix ''/'' (join_with ''/'' ps)"
proof (cases ps)
  case (Cons c cs)
  assume "clean_parts ps"
  with Cons obtain x xs where "c = x # xs" "x \<noteq> CHR ''/''"
    by (cases c) (auto simp: clean_parts_def)
  with Cons show ?thesis by (cases cs) simp_all
qed simp

lemma path_norm_idem: "path_norm (path_norm s) = path_norm s"
proof -
  let ?ps = "path_parts s" let ?j = "join_with ''/'' ?ps"
  note c = clean_path_parts[of s]
  note pj = path_parts_join[OF c] and nj = join_no_slash[OF c]
  have two: "\<not> prefix ''//'' (CHR ''/'' # ?j)" "\<not> prefix ''///'' (CHR ''/'' # CHR ''/'' # ?j)"
    using nj by simp_all
  consider "prefix ''//'' s \<and> \<not> prefix ''///'' s" | "\<not> (prefix ''//'' s \<and> \<not> prefix ''///'' s)"
      "prefix ''/'' s" | "\<not> prefix ''/'' s" by blast
  then show ?thesis
  proof cases
    case 1
    then have "path_norm s = ''//'' @ ?j" by (simp add: path_norm_def Let_def)
    with two nj pj show ?thesis by (simp add: path_norm_def path_parts_slash Let_def)
  next
    case 2
    then have "path_norm s = ''/'' @ ?j" by (auto simp: path_norm_def Let_def)
    with two nj pj show ?thesis by (simp add: path_norm_def path_parts_slash Let_def)
  next
    case 3
    then have slash: "\<not> prefix ''//'' s" by (cases s) auto
    show ?thesis
    proof (cases "?ps = []")
      case True
      with 3 slash have "path_norm s = ''.''" by (simp add: path_norm_def Let_def)
      then show ?thesis by (simp add: path_norm_def path_parts_def)
    next
      case False
      with 3 slash have eq: "path_norm s = ?j" by (simp add: path_norm_def Let_def)
      have "\<not> prefix ''//'' ?j" using nj by (cases ?j) auto
      with eq pj nj False show ?thesis by (simp add: path_norm_def Let_def)
    qed
  qed
qed

lemma mock_download_path:
  assumes "mock_resolve_model registry i = Inr m" and "map_of registry i = Some path"
    and "\<not> str_contains file_scheme (path_norm path)"
  shows "mock_download_weights m dest fs = (fs, Inr (path_norm path))"
proof -
  have "mf_source_uri m = file_scheme @ path_norm path"
    using assms(1,2) by (auto simp: mock_resolve_model_def)
  moreover have "file_scheme \<noteq> []" by (simp add: file_scheme_def)
  ultimately show ?thesis
    using assms(3)
    by (simp add: mock_download_weights_def remove_sub_prefix remove_sub_absent path_norm_idem)
qed

section \<open>Extraction\<close>

text \<open>No link lies on the way to \<open>p\<close>, so the path leads where it says.\<close>

definition plain_path :: "fs \<Rightarrow> path \<Rightarrow> bool" where
  "plain_path fs p \<longleftrightarrow> (\<forall>q. prefix q p \<longrightarrow> link_at fs q = None)"

lemma link_at_root [simp]: "link_at fs [] = None"
  by (simp add: link_at_def)

lemma plain_path_simps [simp]:
  "plain_path fs []"
  "plain_path fs p \<Longrightarrow> plain_path fs (butlast p)"
  "plain_path fs p \<Longrightarrow> link_at fs (p @ [c]) = None \<Longrightarrow> plain_path fs (p @ [c])"
  using prefix_order.trans[OF _ prefixeq_butlast] by (auto simp: plain_path_def)

lemma walk_plain: "walk n fs cur cs = Some t \<Longrightarrow> plain_path fs cur \<Longrightarrow> plain_path fs t"
proof (induction n fs cur cs rule: walk.induct)
  case (2 n fs cur c cs)
  then show ?case by (auto split: if_splits option.splits)
qed simp

lemma walk_cong:
  "(\<forall>p. link_at fs p = link_at fs' p) \<Longrightarrow> walk n fs cur cs = walk n fs' cur cs"
  by (induction n fs cur cs rule: walk.induct) (auto split: option.split)

lemma walk_name:
  "''..'' \<notin> set cs \<Longrightarrow> plain_path fs (cur @ cs) \<Longrightarrow> walk n fs cur cs = Some (cur @ cs)"
proof (induction cs arbitrary: cur)
  case (Cons c cs)
  then have "link_at fs (cur @ [c]) = None" by (auto simp: plain_path_def)
  with Cons.IH[of "cur @ [c]"] Cons.prems show ?case by auto
qed simp

lemma resolve_in_plain: "resolve_in fs base s = Some t \<Longrightarrow> link_at fs t = None"
  using walk_plain[of max_links fs "[]"] by (auto simp: resolve_in_def plain_path_def)

lemma resolve_in_cong:
  "\<forall>p. link_at fs p = link_at fs' p \<Longrightarrow> resolve_in fs base s = resolve_in fs' base s"
  unfolding resolve_in_def by (rule walk_cong)

text \<open>A file or a directory written at a place without a link leaves the links as they are.\<close>

lemma put_links: "link_at fs t = None \<Longrightarrow> link_at (put t (File s) fs) p = link_at fs p"
  by (simp add: link_at_def split: option.split node.split)

lemma mkdir_links: "link_at (mkdir t fs) p = link_at fs p"
  by (simp add: link_at_def node_at_mkdir)

text \<open>A tree without links stays one under the steps before extraction.\<close>

definition no_links :: "fs \<Rightarrow> bool" where
  "no_links fs \<longleftrightarrow> (\<forall>p. link_at fs p = None)"

lemma no_links_steps [simp]:
  "no_links fs \<Longrightarrow> no_links (put t (File s) fs)"
  "no_links fs \<Longrightarrow> no_links (mkdir t fs)"
  by (simp_all add: no_links_def put_links mkdir_links)

lemma no_links_mkdirs [simp]: "no_links fs \<Longrightarrow> no_links (mkdirs t fs)"
  unfolding mkdirs_def by (rule fold_invariant[where Q = "\<lambda>_. True"]) simp_all

lemma no_links_rmtree [simp]: "no_links fs \<Longrightarrow> p \<noteq> [] \<Longrightarrow> no_links (rmtree p fs)"
  by (simp add: no_links_def link_at_def node_at_rmtree)

definition plain_member :: "tar_member \<Rightarrow> bool" where
  "plain_member m = (case tm_kind m of Regular s \<Rightarrow> True | Directory \<Rightarrow> True | _ \<Rightarrow> False)"

lemma member_safe_target:
  "member_safe fs dest m \<Longrightarrow> \<exists>t. resolve_in fs dest (tm_name m) = Some t \<and> prefix dest t"
  by (auto simp: member_safe_def inside_def Let_def strict_prefix_def)

lemma extract_member_plain:
  assumes "plain_member m" and "member_safe fs0 dest m" and "\<forall>p. link_at fs p = link_at fs0 p"
    and "extract_member dest m fs = Some fs'"
  shows "(\<forall>p. link_at fs' p = link_at fs0 p) \<and> (\<forall>q. \<not> prefix dest q \<longrightarrow> node_at fs' q = node_at fs q)"
proof -
  obtain t where t: "resolve_in fs0 dest (tm_name m) = Some t" "prefix dest t"
    using member_safe_target[OF assms(2)] by blast
  then have r: "resolve_in fs dest (tm_name m) = Some t"
    using resolve_in_cong[OF assms(3)] by simp
  then have free: "link_at fs t = None" by (rule resolve_in_plain)
  from assms(1,4) r consider s where "fs' = put t (File s) fs" | "fs' = mkdir t fs"
    by (auto simp: plain_member_def extract_member_def split: member_kind.splits)
  then show ?thesis
    by cases (use t(2) free assms(3) in \<open>auto simp: put_links mkdir_links node_at_mkdir\<close>)
qed

lemma extract_all_outside:
  assumes "list_all plain_member ms" and "list_all (member_safe fs0 dest) ms"
    and "\<forall>p. link_at fs p = link_at fs0 p" and "\<not> prefix dest q"
    and "s \<in> set (fst (extract_all fail dest ms fs))"
  shows "node_at s q = node_at fs q"
  using assms
proof (induction fail dest ms fs rule: extract_all.induct)
  case (2 fail dest m ms fs)
  show ?case
  proof (cases "fail = Some 0 \<or> extract_member dest m fs = None")
    case True
    with "2.prems" show ?thesis by (auto split: if_splits)
  next
    case False
    then obtain fs' where fs': "extract_member dest m fs = Some fs'" by auto
    from "2.prems"(1,2) have m: "plain_member m" "member_safe fs0 dest m" by simp_all
    note keep = extract_member_plain[OF m "2.prems"(3) fs']
    have "s = fs \<or> s \<in> set (fst (extract_all (map_option (\<lambda>n. n - 1) fail) dest ms fs'))"
      using "2.prems"(5) False fs' by (auto simp: Let_def split: prod.splits)
    then show ?thesis
    proof
      assume s: "s \<in> set (fst (extract_all (map_option (\<lambda>n. n - 1) fail) dest ms fs'))"
      have f: "fail \<noteq> Some 0" using False by simp
      have links: "\<forall>p. link_at fs' p = link_at fs0 p" using keep by blast
      have rest: "list_all plain_member ms" "list_all (member_safe fs0 dest) ms"
        using "2.prems"(1,2) by simp_all
      have "node_at s q = node_at fs' q"
        by (rule "2.IH"[OF f fs' rest links "2.prems"(4) s])
      with keep "2.prems"(4) show ?thesis by simp
    qed simp
  qed
qed simp

lemma safe_extractall_refuses:
  "\<not> list_all (member_safe fs dest) ms \<Longrightarrow>
   safe_extractall (NoFilter fail) dest ms fs =
     ([fs], Inl (RuntimeError ''unsafe tar member escapes destination''))"
  by (simp add: safe_extractall_def)

text \<open>
  The guard takes the name of a hard link relative to the member's own directory, extraction
  takes it from the root of the archive: one directory down, the two differ by a \<open>..\<close>.
\<close>

lemma hardlink_escapes:
  "member_safe [] [''models'', ''x''] \<lparr>tm_name = ''d/h'', tm_kind = Hardlink ''../secret''\<rparr> \<and>
   hardlink_source [] [''models'', ''x''] ''../secret'' = Some [''models'', ''secret'']"
  by (simp add: member_safe_def hardlink_source_def resolve_in_def path_parts_def absolute_def
      inside_def strict_prefix_def link_at_def node_at_def)

text \<open>
  Nor does it see the links that the archive itself makes: a link in a directory that is
  itself a link is checked where its name says and made where the first link leads.
\<close>

definition chained_links :: "tar_member list" where
  "chained_links =
     [\<lparr>tm_name = ''a'', tm_kind = Directory\<rparr>, \<lparr>tm_name = ''s'', tm_kind = Directory\<rparr>,
      \<lparr>tm_name = ''a/l'', tm_kind = Symlink ''../s''\<rparr>,
      \<lparr>tm_name = ''a/l/m'', tm_kind = Symlink ''../../y''\<rparr>,
      \<lparr>tm_name = ''s/m'', tm_kind = Regular ''evil''\<rparr>]"

lemmas extract_defs =
  extract_member_def member_safe_def link_place_def resolve_in_def path_parts_def absolute_def
  inside_def strict_prefix_def link_at_def

lemma chained_links_escape:
  "list_all (member_safe [] [''models'', ''x'']) chained_links \<and>
   (\<exists>ss. safe_extractall (NoFilter None) [''models'', ''x''] chained_links [] = (ss, Inr ()) \<and>
     node_at (last ss) [''models'', ''y''] = Some (File ''evil''))"
proof -
  have safe: "list_all (member_safe [] [''models'', ''x'']) chained_links"
    by (simp add: chained_links_def extract_defs node_at_def Let_def)
  have "\<exists>ss. extract_all None [''models'', ''x''] chained_links [] = (ss, Inr ()) \<and>
      node_at (last ss) [''models'', ''y''] = Some (File ''evil'')"
    by (simp add: chained_links_def extract_defs node_at_mkdir max_links_def Let_def)
  with safe show ?thesis by (simp add: safe_extractall_def)
qed

section \<open>Installing a model\<close>

definition same_under :: "path \<Rightarrow> fs \<Rightarrow> fs \<Rightarrow> bool" where
  "same_under p f g \<longleftrightarrow> (\<forall>q. prefix p q \<longrightarrow> node_at f q = node_at g q)"

definition nothing_under :: "path \<Rightarrow> fs \<Rightarrow> bool" where
  "nothing_under p f \<longleftrightarrow> (\<forall>q. prefix p q \<longrightarrow> node_at f q = None)"

lemma extract_dir_apart:
  assumes "dest \<noteq> []"
  shows "\<not> prefix (extract_dir dest) dest" and "\<not> prefix dest (extract_dir dest)"
    and "extract_dir dest \<noteq> []" and "prefix dest q \<Longrightarrow> \<not> prefix (extract_dir dest) q"
proof -
  obtain d n where d: "dest = d @ [n]" using assms by (cases dest rule: rev_cases) auto
  then have x: "extract_dir dest = d @ [n @ ''.extracting'']" by (simp add: extract_dir_def)
  show "\<not> prefix (extract_dir dest) dest" "\<not> prefix dest (extract_dir dest)" "extract_dir dest \<noteq> []"
    unfolding x unfolding d by simp_all
  show "\<not> prefix (extract_dir dest) q" if "prefix dest q"
  proof
    assume "prefix (extract_dir dest) q"
    with that have "prefix dest (extract_dir dest) \<or> prefix (extract_dir dest) dest"
      by (rule prefix_same_cases)
    then show False unfolding x unfolding d by simp
  qed
qed

text \<open>
  The states of an installation, whatever happens on the way: \<open>dest\<close> is as before, or empty;
  only the last state of a successful one has the new content, all of it at once.  For a
  library with extraction filters the hypothesis is what it promises: it writes inside the
  directory it is given.  Without filters it is that the archive holds files and directories
  only; with links the guard is not enough (\<open>chained_links_escape\<close>).
\<close>

definition extraction_confined :: "bridge_world \<Rightarrow> path \<Rightarrow> bool" where
  "extraction_confined w x \<longleftrightarrow>
     (case bw_library w of
        DataFilter f \<Rightarrow>
          \<forall>fs s q. s \<in> set (fst (f fs)) \<longrightarrow> \<not> prefix x q \<longrightarrow> node_at s q = node_at fs q
      | NoFilter fail \<Rightarrow> \<forall>ms. bw_tar w = Inr ms \<longrightarrow> list_all plain_member ms)"

lemma safe_extractall_outside:
  assumes "extraction_confined w x" and "bw_tar w = Inr ms"
    and "safe_extractall (bw_library w) x ms fs = (ss, r)" and "s \<in> set ss" and "\<not> prefix x q"
  shows "node_at s q = node_at fs q"
proof (cases "bw_library w")
  case (DataFilter f)
  with assms(3) have "ss = fst (f fs)" by (simp add: safe_extractall_def)
  with assms(1,4,5) DataFilter show ?thesis by (simp add: extraction_confined_def)
next
  case (NoFilter fail)
  show ?thesis
  proof (cases "list_all (member_safe fs x) ms")
    case True
    with assms(3) NoFilter have "ss = fst (extract_all fail x ms fs)"
      by (simp add: safe_extractall_def)
    moreover have "list_all plain_member ms"
      using assms(1,2) NoFilter by (simp add: extraction_confined_def)
    ultimately show ?thesis using extract_all_outside True assms(4,5) by blast
  next
    case False
    with assms(3,4) NoFilter show ?thesis by (auto simp: safe_extractall_def)
  qed
qed

lemma rmtree_atomic:
  assumes "dest \<noteq> []" and "same_under dest f fs"
  shows "same_under dest (rmtree dest f) fs \<or> nothing_under dest (rmtree dest f)"
proof (cases "node_at f dest = Some Dir")
  case True
  then show ?thesis by (simp add: nothing_under_def node_at_rmtree[OF assms(1)] del: if_split)
next
  case False
  with assms(2) show ?thesis by (simp add: rmtree_def)
qed

lemma install_states_atomic:
  assumes "dest \<noteq> []" and "extraction_confined w (extract_dir dest)"
    and "install_states w dest fs = (ss, r)" and "s \<in> set (if r = Inr () then butlast ss else ss)"
  shows "same_under dest s fs \<or> nothing_under dest s"
proof -
  let ?x = "extract_dir dest"
  note apart = extract_dir_apart[OF assms(1)]
  have f1: "same_under dest (rmtree ?x fs) fs"
    using apart(4) by (simp add: same_under_def rmtree_outside)
  have f2: "same_under dest (mkdir ?x (rmtree ?x fs)) fs"
    using f1 apart(2) by (auto simp: same_under_def node_at_mkdir)
  have f0: "same_under dest fs fs" by (simp add: same_under_def)
  note early = f0 f1 f2
  show ?thesis
  proof (cases "bridge_check w")
    case (Inl err)
    with assms(3) have "ss = [fs]" "r = Inl err" by (simp_all add: install_states_def)
    with assms(4) f0 show ?thesis by simp
  next
    case check: (Inr u)
    show ?thesis
    proof (cases "bw_tar w")
      case (Inl err)
      with Inl check assms(3,4) early show ?thesis by (auto simp: install_states_def Let_def)
    next
      case tar: (Inr ms)
      let ?f2 = "mkdir ?x (rmtree ?x fs)"
      obtain es er where ex: "safe_extractall (bw_library w) ?x ms ?f2 = (es, er)"
        by (cases "safe_extractall (bw_library w) ?x ms ?f2")
      have es: "same_under dest e fs" if "e \<in> set es" for e
        using safe_extractall_outside[OF assms(2) tar ex that] f2 apart(4)
        by (auto simp: same_under_def)
      let ?f3 = "if es = [] then ?f2 else last es"
      have f4: "same_under dest (rmtree dest ?f3) fs \<or> nothing_under dest (rmtree dest ?f3)"
        by (rule rmtree_atomic[OF assms(1)]) (use es f2 in simp)
      from check tar ex assms(3)
      have "set (if r = Inr () then butlast ss else ss) \<subseteq>
          {fs, rmtree ?x fs, ?f2} \<union> set es \<union> {rmtree dest ?f3}"
        by (auto simp: install_states_def Let_def butlast_append split: sum.splits if_splits
            dest: in_set_butlastD)
      with assms(4) have "s \<in> {fs, rmtree ?x fs, ?f2} \<union> set es \<union> {rmtree dest ?f3}"
        by blast
      with early es f4 show ?thesis by blast
    qed
  qed
qed

text \<open>The new content arrives whole: what was extracted is what is under \<open>dest\<close> at the end.\<close>

lemma node_at_move:
  assumes "src \<noteq> []" and "dst \<noteq> []" and "nothing_under dst f" and "\<not> prefix src dst"
  shows "node_at (move src dst f) (dst @ q) = node_at f (src @ q)"
proof -
  have "map_of (move src dst f) (dst @ q) = map_of f (src @ q)"
    if "\<forall>r. map_of f (dst @ r) = None" for f
    using that
  proof (induction f)
    case (Cons e f)
    obtain p n where e: "e = (p, n)" by (cases e)
    have "map_of f (dst @ r) = None" "p \<noteq> dst @ r" for r
      using Cons.prems[rule_format, of r] by (auto simp: e split: if_splits)
    with Cons.IH show ?case
      by (auto simp: e move_def prefix_def)
  qed (simp add: move_def)
  moreover have "\<forall>r. map_of f (dst @ r) = None"
  proof
    fix r
    have "node_at f (dst @ r) = None" using assms(3) by (simp add: nothing_under_def)
    then show "map_of f (dst @ r) = None" using assms(2) by (simp add: node_at_def)
  qed
  ultimately show ?thesis using assms(1,2) by (simp add: node_at_def)
qed

lemma install_complete:
  assumes "dest \<noteq> []" and "extraction_confined w (extract_dir dest)"
    and "install_states w dest fs = (ss, Inr ())"
    and "node_at fs dest = Some Dir \<or> nothing_under dest fs"
  shows "\<exists>ms es f3. bw_tar w = Inr ms \<and>
    safe_extractall (bw_library w) (extract_dir dest) ms
      (mkdir (extract_dir dest) (rmtree (extract_dir dest) fs)) = (es, Inr ()) \<and>
    f3 = (if es = [] then mkdir (extract_dir dest) (rmtree (extract_dir dest) fs) else last es) \<and>
    (\<forall>q. node_at (last ss) (dest @ q) = node_at f3 (extract_dir dest @ q))"
proof -
  let ?x = "extract_dir dest"
  let ?f2 = "mkdir ?x (rmtree ?x fs)"
  note apart = extract_dir_apart[OF assms(1)]
  obtain ms es where tar: "bw_tar w = Inr ms"
    and ex: "safe_extractall (bw_library w) ?x ms ?f2 = (es, Inr ())"
    and ss: "last ss = move ?x dest (rmtree dest (if es = [] then ?f2 else last es))"
    using assms(3) by (auto simp: install_states_def Let_def split: sum.splits prod.splits if_splits)
  let ?f3 = "if es = [] then ?f2 else last es"
  have outside: "node_at ?f3 q = node_at fs q" if "prefix dest q" for q
  proof -
    have "node_at ?f3 q = node_at ?f2 q"
      using safe_extractall_outside[OF assms(2) tar ex _ apart(4)[OF that]] by auto
    also have "\<dots> = node_at fs q"
      using that apart(2,4) by (auto simp: node_at_mkdir rmtree_outside)
    finally show ?thesis .
  qed
  have none: "nothing_under dest (rmtree dest ?f3)"
  proof (cases "node_at fs dest = Some Dir")
    case True
    then have "node_at ?f3 dest = Some Dir" using outside[of dest] by (simp del: if_split)
    then show ?thesis by (simp add: nothing_under_def node_at_rmtree[OF assms(1)] del: if_split)
  next
    case False
    with assms(4) have "nothing_under dest ?f3" using outside by (simp add: nothing_under_def del: if_split)
    then show ?thesis
      by (simp add: nothing_under_def node_at_rmtree[OF assms(1)] del: if_split)
  qed
  have "node_at (last ss) (dest @ q) = node_at (rmtree dest ?f3) (?x @ q)" for q
    unfolding ss by (rule node_at_move[OF apart(3) assms(1) none apart(1)])
  moreover have "node_at (rmtree dest ?f3) (?x @ q) = node_at ?f3 (?x @ q)" for q
  proof -
    have "\<not> prefix dest (?x @ q)"
    proof
      assume "prefix dest (?x @ q)"
      then have "\<not> prefix ?x (?x @ q)" by (rule apart(4))
      then show False by simp
    qed
    then show ?thesis by (rule rmtree_outside)
  qed
  ultimately show ?thesis using tar ex by auto
qed

text \<open>A download that fails leaves neither a model nor a half extracted one.\<close>

lemma nothing_under_rmtree:
  "p \<noteq> [] \<Longrightarrow> node_at f p = Some Dir \<or> nothing_under p f \<Longrightarrow> nothing_under p (rmtree p f)"
  by (auto simp: nothing_under_def node_at_rmtree)

lemma tmp_outside:
  assumes "dest \<noteq> []" and "last dest \<noteq> ''.tmp''" and "prefix dest q"
  shows "q \<noteq> tmp_archive dest i" and "\<not> prefix q (butlast (tmp_archive dest i))"
proof -
  obtain d n where d: "dest = d @ [n]" using assms(1) by (cases dest rule: rev_cases) auto
  with assms(2) have n: "n \<noteq> ''.tmp''" by simp
  have *: "\<not> prefix dest (tmp_archive dest i)" "\<not> prefix dest (butlast (tmp_archive dest i))"
    unfolding tmp_archive_def d using n by (simp_all add: butlast_append)
  with assms(3) show "q \<noteq> tmp_archive dest i" by blast
  show "\<not> prefix q (butlast (tmp_archive dest i))"
    using *(2) assms(3) prefix_order.trans by blast
qed

lemma failed_download_cleans:
  assumes "dest \<noteq> []" and "last dest \<noteq> ''.tmp''" and "extraction_confined w (extract_dir dest)"
    and "real_download_weights w m dest fs = (fs', Inl x)"
    and "node_at fs dest = Some Dir \<or> nothing_under dest fs"
  shows "nothing_under dest fs'"
proof -
  let ?tmp = "tmp_archive dest (mf_model_id m)"
  let ?f0 = "mkdirs (butlast ?tmp) fs"
  let ?f1 = "case bw_written w of None \<Rightarrow> ?f0 | Some s \<Rightarrow> put ?tmp (File s) ?f0"
  note tmp = tmp_outside[OF assms(1,2)]
  have f1: "same_under dest ?f1 fs"
  proof (unfold same_under_def, intro allI impI)
    fix q assume q: "prefix dest q"
    then have "q \<noteq> []" using assms(1) by auto
    with tmp[OF q, of "mf_model_id m"] show "node_at ?f1 q = node_at fs q"
      by (simp add: node_at_mkdirs_other split: option.split)
  qed
  obtain ss where ss: "install_states w dest ?f1 = (ss, Inl x)"
    and fs': "fs' = unlink ?tmp (cleanup_partial dest (last ss))"
    using assms(4) by (auto simp: real_download_weights_def Let_def split: prod.splits sum.splits)
  have "ss \<noteq> []"
    using ss by (auto simp: install_states_def Let_def split: sum.splits prod.splits if_splits)
  then have "same_under dest (last ss) ?f1 \<or> nothing_under dest (last ss)"
    using install_states_atomic[OF assms(1,3) ss, of "last ss"] by simp
  then have l: "node_at (last ss) dest = Some Dir \<or> nothing_under dest (last ss)"
    using f1 assms(5) by (auto simp: same_under_def nothing_under_def)
  let ?c = "rmtree (extract_dir dest) (last ss)"
  have "node_at ?c dest = Some Dir \<or> nothing_under dest ?c"
    using l extract_dir_apart(4)[OF assms(1)] by (auto simp: nothing_under_def rmtree_outside)
  then have clean: "nothing_under dest (cleanup_partial dest (last ss))"
    unfolding cleanup_partial_def by (rule nothing_under_rmtree[OF assms(1)])
  show ?thesis
  proof (unfold nothing_under_def fs', intro allI impI)
    fix q assume q: "prefix dest q"
    then have "q \<noteq> []" using assms(1) by auto
    with tmp(1)[OF q, of "mf_model_id m"] clean q
    show "node_at (unlink ?tmp (cleanup_partial dest (last ss))) q = None"
      by (simp add: node_at_unlink nothing_under_def)
  qed
qed

text \<open>
  Nor does a download touch anything but the model's directory, the one it extracts to, the
  archive and the directories that lead to it.
\<close>

lemma node_at_move_outside:
  assumes "\<not> prefix src q" and "\<not> prefix dst q"
  shows "node_at (move src dst f) q = node_at f q"
proof -
  have "map_of (move src dst f) q = map_of f q"
    using assms by (induction f) (auto simp: move_def)
  then show ?thesis by (simp add: node_at_def)
qed

lemma install_states_outside:
  assumes "extraction_confined w (extract_dir dest)" and "install_states w dest fs = (ss, r)"
    and "s \<in> set ss" and "\<not> prefix dest q" and "\<not> prefix (extract_dir dest) q"
  shows "node_at s q = node_at fs q"
proof -
  let ?x = "extract_dir dest"
  let ?f2 = "mkdir ?x (rmtree ?x fs)"
  have q: "q \<noteq> ?x" using assms(5) by auto
  have f2: "node_at (rmtree ?x fs) q = node_at fs q" "node_at ?f2 q = node_at fs q"
    using assms(5) q by (simp_all add: rmtree_outside node_at_mkdir)
  show ?thesis
  proof (cases "bridge_check w")
    case (Inl err)
    with assms(2,3) show ?thesis by (auto simp: install_states_def)
  next
    case check: (Inr u)
    show ?thesis
    proof (cases "bw_tar w")
      case (Inl err)
      with check assms(2,3) f2 show ?thesis by (auto simp: install_states_def Let_def)
    next
      case tar: (Inr ms)
      obtain es er where ex: "safe_extractall (bw_library w) ?x ms ?f2 = (es, er)"
        by (cases "safe_extractall (bw_library w) ?x ms ?f2")
      have es: "node_at e q = node_at fs q" if "e \<in> set es" for e
        using safe_extractall_outside[OF assms(1) tar ex that assms(5)] f2(2) by simp
      define f3 where "f3 = (if es = [] then ?f2 else last es)"
      have f3: "node_at f3 q = node_at fs q" "node_at (rmtree dest f3) q = node_at fs q"
        using es f2(2) assms(4) by (simp_all add: f3_def rmtree_outside)
      then have mv: "node_at (move ?x dest (rmtree dest f3)) q = node_at fs q"
        using assms(4,5) by (simp add: node_at_move_outside)
      from check tar ex assms(2,3)
      have "s \<in> {fs, rmtree ?x fs, ?f2} \<union> set es \<union>
          {rmtree dest f3, move ?x dest (rmtree dest f3)}"
        by (auto simp: install_states_def Let_def f3_def split: sum.splits if_splits)
      with f2 es f3 mv show ?thesis by auto
    qed
  qed
qed

lemma real_download_outside:
  assumes "extraction_confined w (extract_dir dest)"
    and "real_download_weights w m dest fs = (fs', r)"
    and "\<not> prefix dest q" and "\<not> prefix (extract_dir dest) q"
    and "\<not> prefix q (tmp_archive dest (mf_model_id m))"
  shows "node_at fs' q = node_at fs q"
proof -
  let ?tmp = "tmp_archive dest (mf_model_id m)"
  let ?f0 = "mkdirs (butlast ?tmp) fs"
  let ?f1 = "case bw_written w of None \<Rightarrow> ?f0 | Some s \<Rightarrow> put ?tmp (File s) ?f0"
  have q: "q \<noteq> []" "q \<noteq> ?tmp" using assms(5) by auto
  have "\<not> prefix q (butlast ?tmp)"
    using assms(5) prefix_order.trans[of q "butlast ?tmp" ?tmp] prefixeq_butlast by blast
  then have f1: "node_at ?f1 q = node_at fs q"
    using q by (simp add: node_at_mkdirs_other split: option.split)
  obtain ss x where ss: "install_states w dest ?f1 = (ss, x)"
    by (cases "install_states w dest ?f1")
  have "ss \<noteq> []"
    using ss by (auto simp: install_states_def Let_def split: sum.splits prod.splits if_splits)
  then have l: "node_at (last ss) q = node_at fs q"
    using install_states_outside[OF assms(1) ss _ assms(3,4)] f1 by simp
  from assms(2) ss have "fs' = unlink ?tmp (last ss) \<or> fs' = unlink ?tmp (cleanup_partial dest (last ss))"
    by (auto simp: real_download_weights_def Let_def split: sum.splits)
  with l q assms(3,4) show ?thesis
    by (auto simp: node_at_unlink cleanup_partial_def rmtree_outside)
qed

lemma real_resolve_id: "real_resolve_model reg i = Inr m \<Longrightarrow> mf_model_id m = i"
  by (auto simp: real_resolve_model_def split: option.splits list.splits)

text \<open>So \<open>ensure_model\<close> with the real client changes nothing else of the file system.\<close>

lemma ensure_model_confined_real:
  assumes "''..'' \<notin> set cache_dir" and "dashed i \<notin> {'''', ''.'', ''..''}"
    and "\<forall>cs sha. extraction_confined (download cs sha) (cache_dir @ [dashed i @ ''.extracting''])"
    and "ensure_model (real_foc reg resolve download) cache_dir i (fs, l) = ((fs', l'), r)"
    and "\<not> prefix (cache_dir @ [dashed i]) q"
    and "\<not> prefix (cache_dir @ [dashed i @ ''.extracting'']) q"
    and "\<not> prefix q (tmp_archive (cache_dir @ [dashed i]) i)"
  shows "node_at fs' q = node_at fs q"
proof -
  let ?p = "cache_dir @ [dashed i]"
  let ?fs1 = "if exists_at fs ?p then rmtree ?p fs else fs"
  have x: "extract_dir ?p = cache_dir @ [dashed i @ ''.extracting'']" by (simp add: extract_dir_def)
  note p = cached_path_child[OF assms(1,2)]
  have fs1: "node_at ?fs1 q = node_at fs q" using assms(5) by (simp add: rmtree_outside)
  consider "fs' = fs" | "fs' = ?fs1"
    | w m where "real_resolve_model reg i = Inr m" "\<exists>r. real_download_weights w m ?p ?fs1 = (fs', r)"
        "extraction_confined w (extract_dir ?p)"
    using assms(3,4) x
    by (auto simp: ensure_model_def real_foc_def Let_def p split: if_splits sum.splits prod.splits)
  then show ?thesis
  proof cases
    case (3 w m)
    have "\<not> prefix q (tmp_archive ?p (mf_model_id m))"
      using assms(7) real_resolve_id[OF 3(1)] by simp
    with 3 fs1 assms(5,6) x show ?thesis using real_download_outside by metis
  qed (use fs1 in simp_all)
qed

lemma nothing_under_incomplete: "nothing_under p f \<Longrightarrow> \<not> is_model_complete f p"
  by (simp add: nothing_under_def is_model_complete_def)

section \<open>The local loader\<close>

text \<open>A caller's list of directories grows by the two default ones at each unsuccessful call.\<close>

lemma find_local_model_extends:
  assumes "\<not> exists_at fs (join_path cwd m)" and "ds \<noteq> []"
  shows "snd (find_local_model cwd home fs m (Some ds)) =
    Some (ds @ [[''models''], home @ [''.cache'', ''huggingface'', ''hub'']])"
  using assms by (simp add: find_local_model_def Let_def)

end
