(* ===== verification/Store_Props.thy ===== *)
theory Store_Props
  imports Store_Laws
begin

text \<open>
  The properties of the model store: which files it may touch, that a model is installed all
  at once or not at all, and the request that makes it delete more than it should.
\<close>

section \<open>Where the store writes\<close>


text \<open>An archive of two files, one of them outside, or one good file.\<close>

definition escaping_members :: "tar_member list" where
  "escaping_members =
     [\<lparr>tm_name = ''config.json'', tm_kind = Regular ''c''\<rparr>,
      \<lparr>tm_name = ''../../etc/passwd'', tm_kind = Regular ''x''\<rparr>]"

definition good_members :: "tar_member list" where
  "good_members = [\<lparr>tm_name = ''config.json'', tm_kind = Regular ''c''\<rparr>]"

definition bridge_with :: "tar_member list \<Rightarrow> bridge_world" where
  "bridge_with ms =
     \<lparr>bw_reply = Inr (200, True), bw_written = Some ''tgz'', bw_tar = Inr ms,
      bw_library = NoFilter None, bw_rename_ok = True\<rparr>"

lemma bridge_with_confined [simp]:
  "list_all plain_member ms \<Longrightarrow> extraction_confined (bridge_with ms) x"
  by (simp add: extraction_confined_def bridge_with_def)

lemma plain_archives [simp]: "list_all plain_member escaping_members" "list_all plain_member good_members"
  by (simp_all add: escaping_members_def good_members_def plain_member_def)

definition small_disk :: fs where
  "small_disk = [([''models''], Dir), ([''etc''], Dir), ([''etc'', ''passwd''], File ''root'')]"


text \<open>
  C38. The id \<open>..\<close> of a request names the parent of the cache: unless a model is registered
  under it, everything below that directory is removed, the cache and its neighbours alike.
\<close>

theorem dotdot_request_deletes_parent:
  assumes "''..'' \<notin> set cache_dir" and "butlast cache_dir \<noteq> []"
    and "node_at fs (butlast cache_dir) = Some Dir"
    and "node_at fs (butlast cache_dir @ [''config.json'']) = None"
    and "\<not> fc_available foc ''..''"
    and "ensure_model foc cache_dir ''..'' (fs, l) = ((fs', l'), r)"
  shows "\<forall>q. prefix (butlast cache_dir) q \<longrightarrow> node_at fs' q = None"
  using ensure_model_dotdot[OF assms] by blast

definition shared_disk :: fs where
  "shared_disk =
     [([''srv''], Dir), ([''srv'', ''models''], Dir), ([''srv'', ''keys''], File ''k'')]"

theorem dotdot_request_deletes_parent_witness:
  "node_at shared_disk [''srv'', ''keys''] = Some (File ''k'') \<and>
   node_at (fst (fst (ensure_model (mock_foc []) [''srv'', ''models''] ''..'' (shared_disk, None))))
     [''srv'', ''keys''] = None"
proof -
  obtain fs' l' r where
    run: "ensure_model (mock_foc []) [''srv'', ''models''] ''..'' (shared_disk, None) = ((fs', l'), r)"
    by (metis prod.exhaust)
  have "\<forall>q. prefix (butlast [''srv'', ''models'']) q \<longrightarrow> node_at fs' q = None"
    by (rule dotdot_request_deletes_parent[OF _ _ _ _ _ run])
       (simp_all add: shared_disk_def mock_foc_def)
  with run show ?thesis by (simp add: shared_disk_def)
qed

section \<open>Installing a model\<close>



text \<open>A download whose archive is refused.\<close>

lemma refused_download_leaves_nothing:
  "\<not> is_model_complete (fst (real_download_weights (bridge_with escaping_members)
     \<lparr>mf_model_id = ''m'', mf_size_bytes = 0, mf_checksum_sha256 = '''', mf_source_uri = ''q''\<rparr>
     [''models''] small_disk)) [''models'']"
proof -
  let ?m = "\<lparr>mf_model_id = ''m'', mf_size_bytes = 0, mf_checksum_sha256 = '''', mf_source_uri = ''q''\<rparr>"
  have unsafe: "\<not> list_all (member_safe fs (extract_dir [''models''])) escaping_members"
    if "no_links fs" for fs
    using that
    by (simp add: escaping_members_def member_safe_def resolve_in_def path_parts_def no_links_def
      absolute_def inside_def strict_prefix_def extract_dir_def)
  have "no_links small_disk"
    by (simp add: no_links_def link_at_def node_at_def small_disk_def)
  then have "no_links (mkdir (extract_dir [''models'']) (rmtree (extract_dir [''models''])
      (put t (File s) (mkdirs d small_disk))))" for t s d
    by (simp add: extract_dir_def)
  then obtain fs' x where
    run: "real_download_weights (bridge_with escaping_members) ?m [''models''] small_disk = (fs', Inl x)"
    by (simp add: real_download_weights_def install_states_def bridge_with_def bridge_check_def
      safe_extractall_refuses unsafe Let_def)
  have "nothing_under [''models''] fs'"
    by (rule failed_download_cleans[OF _ _ _ run]) (simp_all add: small_disk_def)
  with run nothing_under_incomplete show ?thesis by simp
qed

end
