(* ===== verification/Config.thy ===== *)
theory Config
  imports Prelude Complex_Main
begin

text \<open>
  The configuration of \<open>config.py\<close>: GPU detection, the substitution of environment
  variables, the resolution of the multi-GPU section and the defaults of \<open>load_config\<close>.

  The YAML library is a parameter: it turns the text into a tree of Python values.  The
  dataclasses check no types, so a field that is copied holds whatever value the file has.
\<close>

section \<open>Values of a YAML file\<close>

datatype yaml =
  YNull | YBool bool | YInt int | YFloat rat | YStr string | YList "yaml list"
| YMap "(string \<times> yaml) list"

text \<open>\<open>v.get(key, default)\<close>, which only a mapping has, and the truth value of \<open>v\<close>.\<close>

definition yget :: "string \<Rightarrow> yaml \<Rightarrow> yaml \<Rightarrow> yaml result" where
  "yget key dflt v =
     (case v of
        YMap kvs \<Rightarrow> Inr (case map_of kvs key of None \<Rightarrow> dflt | Some x \<Rightarrow> x)
      | _ \<Rightarrow> Inl (AttributeError ''no attribute get''))"

definition falsy :: "yaml \<Rightarrow> bool" where
  "falsy v \<longleftrightarrow>
     v \<in> {YNull, YBool False, YInt 0, YFloat 0, YStr [], YList [], YMap []}"

subsection \<open>\<open>int\<close>\<close>

definition is_digit :: "char \<Rightarrow> bool" where
  "is_digit c \<longleftrightarrow> 48 \<le> (of_char c :: nat) \<and> (of_char c :: nat) \<le> 57"

definition digits_value :: "string \<Rightarrow> int" where
  "digits_value ds = foldl (\<lambda>n c. 10 * n + (of_char c - 48)) 0 ds"

definition underscore :: char where "underscore = CHR 0x5F"

text \<open>A sign, then digits with single underscores between them.\<close>

definition parse_int :: "string \<Rightarrow> int option" where
  "parse_int s =
     (let t = strip s;
          neg = (t \<noteq> [] \<and> hd t = CHR ''-'');
          ds = (if t \<noteq> [] \<and> hd t \<in> {CHR ''-'', CHR ''+''} then tl t else t);
          groups = split_on underscore ds in
      if list_all (\<lambda>g. g \<noteq> [] \<and> list_all is_digit g) groups
      then Some (if neg then - digits_value (concat groups) else digits_value (concat groups))
      else None)"

definition py_int :: "yaml \<Rightarrow> int result" where
  "py_int v =
     (case v of
        YInt n \<Rightarrow> Inr n
      | YBool b \<Rightarrow> Inr (if b then 1 else 0)
      | YFloat x \<Rightarrow> Inr (if x < 0 then \<lceil>x\<rceil> else \<lfloor>x\<rfloor>)
      | YStr s \<Rightarrow> (case parse_int s of
                    None \<Rightarrow> Inl (ValueError ''invalid literal for int()'') | Some n \<Rightarrow> Inr n)
      | _ \<Rightarrow> Inl (TypeError ''int() argument must be a string or a number''))"

text \<open>The values a \<open>for\<close> loop takes from \<open>v\<close>, and \<open>range(v)\<close>.\<close>

definition py_iter :: "yaml \<Rightarrow> yaml list result" where
  "py_iter v =
     (case v of
        YList xs \<Rightarrow> Inr xs
      | YStr s \<Rightarrow> Inr (map (\<lambda>c. YStr [c]) s)
      | YMap kvs \<Rightarrow> Inr (map (\<lambda>(k, x). YStr k) kvs)
      | _ \<Rightarrow> Inl (TypeError ''object is not iterable''))"

definition py_index :: "yaml \<Rightarrow> int result" where
  "py_index v =
     (case v of
        YInt n \<Rightarrow> Inr n
      | YBool b \<Rightarrow> Inr (if b then 1 else 0)
      | _ \<Rightarrow> Inl (TypeError ''object cannot be interpreted as an integer''))"

definition py_range :: "int \<Rightarrow> int list" where
  "py_range n = map int [0..<nat n]"

fun map_result :: "('a \<Rightarrow> 'b result) \<Rightarrow> 'a list \<Rightarrow> 'b list result" where
  "map_result f [] = Inr []"
| "map_result f (x # xs) =
     bind_result (f x) (\<lambda>y. bind_result (map_result f xs) (\<lambda>ys. Inr (y # ys)))"

lemma map_result_Inr:
  "map_result f xs = Inr ys \<longleftrightarrow> list_all2 (\<lambda>x y. f x = Inr y) xs ys"
  by (induction xs arbitrary: ys) (auto simp: bind_result_eq_Inr list_all2_Cons1)

section \<open>GPUs\<close>

text \<open>
  \<open>torch\<close> is the device count, \<open>None\<close> without the library; \<open>smi\<close> is the exit code and the
  output of \<open>nvidia-smi\<close>, \<open>None\<close> where it is missing or times out.
\<close>

definition detect_gpus :: "int option \<Rightarrow> (int \<times> string) option \<Rightarrow> int" where
  "detect_gpus torch smi =
     (let fallback =
        (case smi of
           None \<Rightarrow> 0
         | Some (code, out) \<Rightarrow>
             if code = 0
             then int (length (filter (\<lambda>l. strip l \<noteq> []) (split_on CHR 0x0A (strip out))))
             else 0) in
      case torch of
        None \<Rightarrow> fallback
      | Some n \<Rightarrow> if n > 0 then n else fallback)"

record multi_gpu_config =
  mg_mode :: yaml
  mg_gpu_count :: int
  mg_device_ids :: "int list"

definition default_multi_gpu :: multi_gpu_config where
  "default_multi_gpu =
     \<lparr>mg_mode = YStr ''tensor_parallel'', mg_gpu_count = 1, mg_device_ids = [0]\<rparr>"

text \<open>The count before the device ids are read: a value, for a mock count is not converted.\<close>

definition resolve_count :: "int \<Rightarrow> yaml \<Rightarrow> yaml \<Rightarrow> yaml \<Rightarrow> yaml result" where
  "resolve_count detected app_mode raw_count mock_count =
     (if raw_count = YStr ''auto''
      then Inr (if detected = 0 \<and> app_mode = YStr ''dev'' then mock_count
                else if detected = 0 then YInt 1 else YInt detected)
      else bind_result (py_int raw_count) (\<lambda>n. Inr (YInt n)))"

definition resolve_multi_gpu :: "int \<Rightarrow> yaml \<Rightarrow> yaml \<Rightarrow> multi_gpu_config result" where
  "resolve_multi_gpu detected inference_raw app_mode =
     bind_result (yget ''multi_gpu'' (YMap []) inference_raw) (\<lambda>mg.
     if falsy mg then Inr default_multi_gpu
     else
       bind_result (yget ''mode'' (YStr ''tensor_parallel'') mg) (\<lambda>mode.
       bind_result (yget ''gpu_count'' (YStr ''auto'') mg) (\<lambda>raw_count.
       bind_result (yget ''device_ids'' YNull mg) (\<lambda>raw_ids.
       bind_result (yget ''mock_gpu_count'' (YInt 4) mg) (\<lambda>mock_count.
       bind_result (resolve_count detected app_mode raw_count mock_count) (\<lambda>count.
       if raw_ids \<noteq> YNull
       then bind_result (py_iter raw_ids) (\<lambda>xs. bind_result (map_result py_int xs) (\<lambda>ids.
            Inr \<lparr>mg_mode = mode, mg_gpu_count = int (length ids), mg_device_ids = ids\<rparr>))
       else bind_result (py_index count) (\<lambda>n.
            Inr \<lparr>mg_mode = mode, mg_gpu_count = n, mg_device_ids = py_range n\<rparr>)))))))"

section \<open>Environment variables\<close>

text \<open>A word character of a regular expression, for code points below 256.\<close>

definition word_char :: "char \<Rightarrow> bool" where
  "word_char c \<longleftrightarrow>
     (let n = (of_char c :: nat) in
      (48 \<le> n \<and> n \<le> 57) \<or> (65 \<le> n \<and> n \<le> 90) \<or> n = 95 \<or> (97 \<le> n \<and> n \<le> 122) \<or>
      n \<in> {0xAA, 0xB2, 0xB3, 0xB5, 0xB9, 0xBA, 0xBC, 0xBD, 0xBE} \<or>
      (0xC0 \<le> n \<and> n \<noteq> 0xD7 \<and> n \<noteq> 0xF7))"

definition match_var :: "string \<Rightarrow> (string \<times> string) option" where
  "match_var s =
     (if prefix ''${'' s
      then (let name = takeWhile word_char (drop 2 s); rest = dropWhile word_char (drop 2 s) in
            if name \<noteq> [] \<and> rest \<noteq> [] \<and> hd rest = CHR ''}'' then Some (name, tl rest) else None)
      else None)"

lemma match_var_shorter: "match_var s = Some (name, rest) \<Longrightarrow> length rest < length s"
proof -
  assume m: "match_var s = Some (name, rest)"
  then have "rest = tl (dropWhile word_char (drop 2 s))" "prefix ''${'' s"
    by (auto simp: match_var_def Let_def split: if_splits)
  moreover have "length (dropWhile word_char (drop 2 s)) \<le> length s - 2"
    using length_dropWhile_le[of word_char "drop 2 s"] by simp
  moreover have "2 \<le> length s"
    using \<open>prefix ''${'' s\<close> prefix_length_le by fastforce
  ultimately show ?thesis by simp
qed

function interpolate_env_vars :: "(string \<Rightarrow> string option) \<Rightarrow> string \<Rightarrow> string" where
  "interpolate_env_vars env s =
     (case match_var s of
        Some (name, rest) \<Rightarrow>
          (case env name of None \<Rightarrow> [] | Some v \<Rightarrow> v) @ interpolate_env_vars env rest
      | None \<Rightarrow> (case s of [] \<Rightarrow> [] | c # cs \<Rightarrow> c # interpolate_env_vars env cs))"
  by pat_completeness auto
termination
  by (relation "measure (\<lambda>(env, s). length s)") (auto dest: match_var_shorter)

declare interpolate_env_vars.simps [simp del]

lemma interpolate_plain:
  "CHR ''$'' \<notin> set a \<Longrightarrow> interpolate_env_vars env (a @ s) = a @ interpolate_env_vars env s"
proof (induction a)
  case (Cons c a)
  then have "match_var (c # a @ s) = None" by (simp add: match_var_def)
  with Cons show ?case by (subst interpolate_env_vars.simps) simp
qed simp

lemma interpolate_var:
  assumes "name \<noteq> []" and "list_all word_char name"
  shows "interpolate_env_vars env (''${'' @ name @ CHR ''}'' # s) =
    (case env name of None \<Rightarrow> [] | Some v \<Rightarrow> v) @ interpolate_env_vars env s"
proof -
  have brace: "\<not> word_char CHR ''}''" by (simp add: word_char_def)
  have w: "\<forall>x \<in> set name. word_char x" using assms(2) by (simp add: list_all_iff)
  have "match_var (''${'' @ name @ CHR ''}'' # s) = Some (name, s)"
    using assms(1) w brace by (simp add: match_var_def takeWhile_append2 dropWhile_append2)
  then show ?thesis by (subst interpolate_env_vars.simps) simp
qed

section \<open>\<open>load_config\<close>\<close>

record inference_config =
  ic_engine :: yaml
  ic_model :: yaml
  ic_gpu_memory_utilization :: yaml
  ic_max_model_len :: yaml
  ic_api_port :: yaml
  ic_tensor_parallel_size :: yaml
  ic_enforce_eager :: yaml
  ic_api_token :: yaml
  ic_max_tokens_limit :: yaml
  ic_multi_gpu :: multi_gpu_config
  ic_load_balancer :: yaml

record foc_config =
  fo_backend :: yaml
  fo_mock_model_registry :: yaml
  fo_simulate_delay :: yaml
  fo_real_bridge_url :: yaml
  fo_real_piece_cid_registry :: yaml

record app_config =
  cf_mode :: yaml
  cf_inference :: inference_config
  cf_foc :: foc_config
  cf_scheduler_addr :: string
  cf_log_level :: yaml
  cf_log_format :: yaml

text \<open>
  \<open>str(v)\<close> inside an f-string; \<open>show\<close> is the text of a float or a container.  The
  sections are read in the order of the code, which decides the error that is raised first.
\<close>

definition py_str :: "(yaml \<Rightarrow> string) \<Rightarrow> yaml \<Rightarrow> string" where
  "py_str show v =
     (case v of
        YInt n \<Rightarrow> str_int n | YStr s \<Rightarrow> s | YNull \<Rightarrow> ''None''
      | YBool b \<Rightarrow> if b then ''True'' else ''False'' | _ \<Rightarrow> show v)"

definition env_or :: "string option \<Rightarrow> yaml \<Rightarrow> yaml" where
  "env_or var v = (case var of None \<Rightarrow> v | Some s \<Rightarrow> YStr s)"

definition load_inference ::
  "(string \<Rightarrow> string option) \<Rightarrow> int \<Rightarrow> yaml \<Rightarrow> yaml \<Rightarrow> inference_config result" where
  "load_inference env detected mode raw =
     bind_result (resolve_multi_gpu detected raw mode) (\<lambda>mg.
     bind_result (yget ''tensor_parallel_size'' (YInt 1) raw) (\<lambda>tp.
     bind_result (yget ''multi_instance'' (YMap []) raw) (\<lambda>mi.
     bind_result (yget ''engine'' (YStr (if mode = YStr ''dev'' then ''mock'' else ''vllm'')) raw) (\<lambda>eng.
     bind_result (yget ''model'' (YStr ''meta-llama/Llama-3-8B'') raw) (\<lambda>model.
     bind_result (yget ''gpu_memory_utilization'' (YFloat (85 / 100)) raw) (\<lambda>util.
     bind_result (yget ''max_model_len'' (YInt 4096) raw) (\<lambda>len.
     bind_result (yget ''api_port'' (YInt 8000) raw) (\<lambda>port.
     bind_result (yget ''enforce_eager'' (YBool False) raw) (\<lambda>eager.
     bind_result (yget ''api_token'' (YStr '''') raw) (\<lambda>token.
     bind_result (yget ''max_tokens_limit'' (YInt 0) raw) (\<lambda>limit.
     bind_result (yget ''load_balancer'' (YStr ''round_robin'') mi) (\<lambda>lb.
     Inr \<lparr>ic_engine = eng, ic_model = model, ic_gpu_memory_utilization = util,
          ic_max_model_len = len, ic_api_port = port,
          ic_tensor_parallel_size =
            (if mg_mode mg = YStr ''tensor_parallel'' then YInt (mg_gpu_count mg) else tp),
          ic_enforce_eager = eager, ic_api_token = env_or (env ''INFERENCE_API_TOKEN'') token,
          ic_max_tokens_limit = limit, ic_multi_gpu = mg, ic_load_balancer = lb\<rparr>))))))))))))"

definition load_foc :: "yaml \<Rightarrow> foc_config result" where
  "load_foc raw =
     bind_result (yget ''mock'' (YMap []) raw) (\<lambda>mock.
     bind_result (yget ''real'' (YMap []) raw) (\<lambda>real.
     bind_result (yget ''backend'' (YStr ''mock'') raw) (\<lambda>backend.
     bind_result (yget ''model_registry'' (YMap []) mock) (\<lambda>registry.
     bind_result (yget ''simulate_delay'' (YBool False) mock) (\<lambda>delay.
     bind_result (yget ''bridge_url'' (YStr ''http://127.0.0.1:3100'') real) (\<lambda>url.
     bind_result (yget ''piece_cid_registry'' (YMap []) real) (\<lambda>cids.
     Inr \<lparr>fo_backend = backend, fo_mock_model_registry = registry, fo_simulate_delay = delay,
          fo_real_bridge_url = url, fo_real_piece_cid_registry = cids\<rparr>)))))))"

definition load_config ::
  "(string \<Rightarrow> string option) \<Rightarrow> (string \<Rightarrow> yaml result) \<Rightarrow> (yaml \<Rightarrow> string) \<Rightarrow> int \<Rightarrow> string \<Rightarrow>
   app_config result" where
  "load_config env safe_load show detected content =
     bind_result (safe_load (interpolate_env_vars env content)) (\<lambda>raw.
     bind_result (yget ''mode'' (YStr ''dev'') raw) (\<lambda>mode.
     bind_result (yget ''inference'' (YMap []) raw) (\<lambda>inf_raw.
     bind_result (load_inference env detected mode inf_raw) (\<lambda>inf.
     bind_result (yget ''foc'' (YMap []) raw) (\<lambda>foc_raw.
     bind_result (load_foc foc_raw) (\<lambda>foc.
     bind_result (yget ''grpc'' (YMap []) raw) (\<lambda>grpc.
     bind_result (yget ''port'' (YInt 50051) grpc) (\<lambda>port.
     bind_result (yget ''logging'' (YMap []) raw) (\<lambda>logging.
     bind_result (yget ''level'' (YStr ''info'') logging) (\<lambda>level.
     bind_result (yget ''format'' (YStr ''json'') logging) (\<lambda>fmt.
     Inr \<lparr>cf_mode = mode, cf_inference = inf, cf_foc = foc,
          cf_scheduler_addr = (case env ''SCHEDULER_GRPC_ADDR'' of
            Some a \<Rightarrow> a | None \<Rightarrow> ''localhost:'' @ py_str show port),
          cf_log_level = level, cf_log_format = fmt\<rparr>)))))))))))"

section \<open>Properties\<close>

lemma length_py_range: "0 \<le> n \<Longrightarrow> int (length (py_range n)) = n"
  by (simp add: py_range_def)

text \<open>
  The count is the number of devices, unless it is negative; given ids win over any count.
\<close>

lemma resolve_multi_gpu_consistent:
  assumes "resolve_multi_gpu detected raw mode = Inr mg"
  shows "int (length (mg_device_ids mg)) = max 0 (mg_gpu_count mg)"
proof -
  have "int (length (py_range n)) = max 0 n" for n by (simp add: py_range_def)
  with assms show ?thesis
    by (auto simp: resolve_multi_gpu_def bind_result_eq_Inr default_multi_gpu_def split: if_splits)
qed

lemma load_inference_tp:
  assumes "load_inference env detected mode raw = Inr c"
    and "mg_mode (ic_multi_gpu c) = YStr ''tensor_parallel''"
  shows "ic_tensor_parallel_size c = YInt (mg_gpu_count (ic_multi_gpu c))"
  using assms by (auto simp: load_inference_def bind_result_eq_Inr)

text \<open>Whatever the file says, a variable that is set gives the token, an empty one too.\<close>

lemma load_inference_token:
  assumes "load_inference env detected mode raw = Inr c" and "env ''INFERENCE_API_TOKEN'' = Some t"
  shows "ic_api_token c = YStr t"
  using assms by (auto simp: load_inference_def bind_result_eq_Inr env_or_def)

end
