(* ===== verification/Wiring.thy ===== *)
theory Wiring
  imports Config Model_Store Api_Laws
begin

text \<open>
  How the service is put together: \<open>create_engine\<close> of \<open>engine.py\<close>, \<open>create_engine_pool\<close> of
  \<open>engine_pool.py\<close>, and the startup of \<open>main.py\<close>.

  An engine object is a mock or a vLLM engine and its methods dispatch on that; the object
  keeps the engine's contract, so everything proved of pools holds for a pool built here.
\<close>

section \<open>Engine objects\<close>

datatype engine_object = MockObj mock | VllmObj vllm

definition dispatch :: "mock meth \<Rightarrow> vllm meth \<Rightarrow> engine_object meth" where
  "dispatch f g e =
     (case e of
        MockObj m \<Rightarrow> (MockObj (fst (f m)), snd (f m))
      | VllmObj v \<Rightarrow> (VllmObj (fst (g v)), snd (g v)))"

definition object_ops :: "world \<Rightarrow> engine_object engine_ops" where
  "object_ops w =
     (let m = mock_ops; v = vllm_ops w in
      \<lparr>op_start = (\<lambda>p. dispatch (op_start m p) (op_start v p)),
       op_pause = (\<lambda>u. dispatch (op_pause m u) (op_pause v u)),
       op_resume = dispatch (op_resume m) (op_resume v),
       op_stop = dispatch (op_stop m) (op_stop v),
       op_switch = (\<lambda>p. dispatch (op_switch m p) (op_switch v p)),
       op_available = case_engine_object (op_available m) (op_available v),
       op_status = case_engine_object (op_status m) (op_status v),
       op_model = case_engine_object (op_model m) (op_model v),
       op_start_paused = (\<lambda>p. case_engine_object (\<lambda>e. MockObj (op_start_paused m p e))
         (\<lambda>e. VllmObj (op_start_paused v p e)))\<rparr>)"

definition object_settled :: "engine_object \<Rightarrow> bool" where
  "object_settled e = (case e of MockObj m \<Rightarrow> mock_settled m | VllmObj v \<Rightarrow> vllm_settled v)"

lemma object_ops_mock [simp]:
  "op_start (object_ops w) p (MockObj m) = map_prod MockObj id (op_start mock_ops p m)"
  "op_pause (object_ops w) u (MockObj m) = map_prod MockObj id (op_pause mock_ops u m)"
  "op_resume (object_ops w) (MockObj m) = map_prod MockObj id (op_resume mock_ops m)"
  "op_stop (object_ops w) (MockObj m) = map_prod MockObj id (op_stop mock_ops m)"
  "op_switch (object_ops w) p (MockObj m) = map_prod MockObj id (op_switch mock_ops p m)"
  "op_available (object_ops w) (MockObj m) = op_available mock_ops m"
  "op_status (object_ops w) (MockObj m) = op_status mock_ops m"
  "op_model (object_ops w) (MockObj m) = op_model mock_ops m"
  "op_start_paused (object_ops w) p (MockObj m) = MockObj (op_start_paused mock_ops p m)"
  "object_settled (MockObj m) = mock_settled m"
  by (simp_all add: object_ops_def dispatch_def object_settled_def Let_def prod_eq_iff)

lemma object_ops_vllm [simp]:
  "op_start (object_ops w) p (VllmObj v) = map_prod VllmObj id (op_start (vllm_ops w) p v)"
  "op_pause (object_ops w) u (VllmObj v) = map_prod VllmObj id (op_pause (vllm_ops w) u v)"
  "op_resume (object_ops w) (VllmObj v) = map_prod VllmObj id (op_resume (vllm_ops w) v)"
  "op_stop (object_ops w) (VllmObj v) = map_prod VllmObj id (op_stop (vllm_ops w) v)"
  "op_switch (object_ops w) p (VllmObj v) = map_prod VllmObj id (op_switch (vllm_ops w) p v)"
  "op_available (object_ops w) (VllmObj v) = op_available (vllm_ops w) v"
  "op_status (object_ops w) (VllmObj v) = op_status (vllm_ops w) v"
  "op_model (object_ops w) (VllmObj v) = op_model (vllm_ops w) v"
  "op_start_paused (object_ops w) p (VllmObj v) = VllmObj (op_start_paused (vllm_ops w) p v)"
  "object_settled (VllmObj v) = vllm_settled v"
  by (simp_all add: object_ops_def dispatch_def object_settled_def Let_def prod_eq_iff)

text \<open>Dynamic dispatch between two engines that keep the contract keeps it.\<close>

lemma object_settledE:
  assumes "object_settled e"
  obtains m where "e = MockObj m" "mock_settled m" | v where "e = VllmObj v" "vllm_settled v"
  using assms by (cases e) (simp_all add: object_settled_def)

text \<open>Either engine keeps the contract, so their union does.\<close>

lemmas mock_laws =
  mock.ok_start mock.ok_pause mock.ok_resume mock.ok_stop mock.ok_start_paused
  mock.ok_switch mock.settled mock.available mock.start_running mock.pause_returns
  mock.pause_state mock.resume_state mock.resume_model mock.stop_stopped mock.start_paused
  mock.pause_other mock.resume_other mock.switch_current mock.switch_model mock.switch_state

lemmas vllm_laws =
  vllm.ok_start vllm.ok_pause vllm.ok_resume vllm.ok_stop vllm.ok_start_paused
  vllm.ok_switch vllm.settled vllm.available vllm.start_running vllm.pause_returns
  vllm.pause_state vllm.resume_state vllm.resume_model vllm.stop_stopped vllm.start_paused
  vllm.pause_other vllm.resume_other vllm.switch_current vllm.switch_model vllm.switch_state

lemma object_contract: "inference_engine (object_ops w) object_settled"
  by unfold_locales
     (erule object_settledE; simp add: mock_laws vllm_laws
       mock.settled[simplified] vllm.settled[simplified])+

interpretation object: inference_engine "object_ops w" object_settled for w
  by (rule object_contract)

interpretation object_pool: pool_of_engines "object_ops w" object_settled for w
  by unfold_locales

section \<open>\<open>create_engine\<close>\<close>

text \<open>The keyword arguments, \<open>None\<close> where absent.\<close>

record engine_kwargs =
  ek_latency_sec :: "rat option"
  ek_gpu_id :: "int option"
  ek_gpu_memory_utilization :: "rat option"
  ek_max_model_len :: "int option"
  ek_tensor_parallel_size :: "int option"
  ek_device_ids :: "int list option"
  ek_enforce_eager :: "bool option"

definition kwarg :: "'a option \<Rightarrow> 'a \<Rightarrow> 'a" where
  "kwarg v dflt = (case v of None \<Rightarrow> dflt | Some x \<Rightarrow> x)"

definition create_engine :: "string \<Rightarrow> engine_kwargs \<Rightarrow> engine_object result" where
  "create_engine engine_type kw =
     (if engine_type = ''mock''
      then Inr (MockObj (mock_init (kwarg (ek_latency_sec kw) (1 / 2)) (kwarg (ek_gpu_id kw) 0)))
      else if engine_type = ''vllm''
      then Inr (VllmObj (vllm_init (kwarg (ek_gpu_memory_utilization kw) (85 / 100))
        (kwarg (ek_max_model_len kw) 4096) (kwarg (ek_tensor_parallel_size kw) 1)
        (ek_device_ids kw) (kwarg (ek_enforce_eager kw) False)))
      else Inl (ValueError (''Unknown engine type: '' @ engine_type)))"

lemma create_engine_fresh:
  "create_engine engine_type kw = Inr e \<Longrightarrow>
     object_settled e \<and> op_state (object_ops w) e = STOPPED"
  by (auto simp: create_engine_def mock_init_def vllm_init_def mock_settled_def vllm_settled_def
      mock_ops_def mock_status_def vllm_ops_def status_def eng_ok_def split: if_splits)

section \<open>\<open>create_engine_pool\<close>\<close>

text \<open>
  The fields of the inference configuration it reads, at the types the configuration class
  declares; the GPU section is the one \<open>resolve_multi_gpu\<close> returns.
\<close>

record engine_settings =
  eg_engine :: string
  eg_gpu_memory_utilization :: rat
  eg_max_model_len :: int
  eg_enforce_eager :: bool
  eg_load_balancer :: string

definition settings_of :: "inference_config \<Rightarrow> engine_settings option" where
  "settings_of c =
     (case (ic_engine c, ic_max_model_len c, ic_enforce_eager c, ic_load_balancer c) of
        (YStr ty, YInt len, YBool eager, YStr lb) \<Rightarrow>
          map_option (\<lambda>util. \<lparr>eg_engine = ty, eg_gpu_memory_utilization = util,
              eg_max_model_len = len, eg_enforce_eager = eager, eg_load_balancer = lb\<rparr>)
            (case ic_gpu_memory_utilization c of
               YFloat x \<Rightarrow> Some x | YInt n \<Rightarrow> Some (of_int n) | _ \<Rightarrow> None)
      | _ \<Rightarrow> None)"

definition pool_engine :: "engine_settings \<Rightarrow> int \<Rightarrow> int list \<Rightarrow> int \<Rightarrow> engine_object result" where
  "pool_engine s tp devs gpu =
     create_engine (eg_engine s)
       \<lparr>ek_latency_sec = None, ek_gpu_id = Some gpu,
        ek_gpu_memory_utilization = Some (eg_gpu_memory_utilization s),
        ek_max_model_len = Some (eg_max_model_len s), ek_tensor_parallel_size = Some tp,
        ek_device_ids = Some devs, ek_enforce_eager = Some (eg_enforce_eager s)\<rparr>"

definition create_engine_pool ::
  "engine_settings \<Rightarrow> multi_gpu_config \<Rightarrow> engine_object pool result" where
  "create_engine_pool s mg =
     (if mg_mode mg = YStr ''tensor_parallel''
      then bind_result (pool_engine s (mg_gpu_count mg) (mg_device_ids mg) 0)
        (\<lambda>e. Inr (pool_init ''tensor_parallel'' [e] ''round_robin''))
      else if mg_mode mg = YStr ''multi_instance''
      then bind_result (map_result (\<lambda>d. pool_engine s 1 [d] d) (mg_device_ids mg))
        (\<lambda>es. Inr (pool_init ''multi_instance'' es (eg_load_balancer s)))
      else Inl (ValueError ''Unknown multi_gpu mode''))"

text \<open>The devices an engine was given.\<close>

definition object_devices :: "engine_object \<Rightarrow> int list" where
  "object_devices e =
     (case e of
        MockObj m \<Rightarrow> [m_gpu_id m]
      | VllmObj v \<Rightarrow> (case e_device_ids v of None \<Rightarrow> [] | Some ds \<Rightarrow> ds))"

lemma pool_engine_device:
  "pool_engine s tp [d] d = Inr e \<Longrightarrow> object_devices e = [d]"
  by (auto simp: pool_engine_def create_engine_def object_devices_def mock_init_def vllm_init_def
      kwarg_def split: if_splits)

lemma pool_engines_devices:
  "list_all2 (\<lambda>d e. pool_engine s tp [d] d = Inr e) ds es \<Longrightarrow> concat (map object_devices es) = ds"
  by (induction rule: list_all2_induct) (auto simp: pool_engine_device)

lemma pool_engines_in:
  "list_all2 (\<lambda>d e. pool_engine s tp [d] d = Inr e) ds es \<Longrightarrow> e \<in> set es \<Longrightarrow>
   \<exists>d. pool_engine s tp [d] d = Inr e"
  by (auto simp: list_all2_conv_all_nth in_set_conv_nth)

text \<open>
  The pool is stopped and keeps the contract whenever the configuration gives it a device.
\<close>

lemma created_pool_ok:
  assumes "create_engine_pool s mg = Inr p" and "mg_device_ids mg \<noteq> []"
  shows "pool_ok object_settled p"
    and "\<forall>e \<in> set (p_engines p). op_state (object_ops w) e = STOPPED"
proof -
  have fresh: "object_settled e \<and> op_state (object_ops w) e = STOPPED"
    if "pool_engine s tp ds g = Inr e" for tp ds g e w
    using that create_engine_fresh by (simp add: pool_engine_def)
  consider e where "p = pool_init ''tensor_parallel'' [e] ''round_robin''"
      "pool_engine s (mg_gpu_count mg) (mg_device_ids mg) 0 = Inr e"
    | es where "p = pool_init ''multi_instance'' es (eg_load_balancer s)"
      "list_all2 (\<lambda>d e. pool_engine s 1 [d] d = Inr e) (mg_device_ids mg) es"
    using assms(1)
    by (auto simp: create_engine_pool_def bind_result_eq_Inr map_result_Inr split: if_splits)
  then have "pool_ok object_settled p \<and>
      (\<forall>w. \<forall>e \<in> set (p_engines p). op_state (object_ops w) e = STOPPED)"
  proof cases
    case 1
    with fresh show ?thesis by (simp add: pool_ok_def pool_init_def)
  next
    case (2 es)
    have "object_settled e \<and> op_state (object_ops w) e = STOPPED" if "e \<in> set es" for e w
      using pool_engines_in[OF 2(2) that] fresh by blast
    moreover have "es \<noteq> []" using 2(2) assms(2) by auto
    ultimately show ?thesis using 2(1) by (simp add: pool_ok_def pool_init_def)
  qed
  then show "pool_ok object_settled p" "\<forall>e \<in> set (p_engines p). op_state (object_ops w) e = STOPPED"
    by blast+
qed

lemma created_pool_stopped:
  assumes "create_engine_pool s mg = Inr p" and "mg_device_ids mg \<noteq> []"
  shows "op_state (pool_ops (object_ops w)) p = STOPPED"
  using created_pool_ok[OF assms] object_pool.pool_op_state object_pool.pool_state_iff(2) by metis

text \<open>
  Its engines cover the configured devices, in their order; the one mock of a tensor-parallel
  pool shows as GPU 0 whatever the devices.
\<close>

lemma created_pool_devices:
  assumes "create_engine_pool s mg = Inr p"
    and "eg_engine s = ''vllm'' \<or> mg_mode mg = YStr ''multi_instance''"
  shows "concat (map object_devices (p_engines p)) = mg_device_ids mg"
    and "length (p_engines p) =
      (if mg_mode mg = YStr ''tensor_parallel'' then 1 else length (mg_device_ids mg))"
proof -
  have "concat (map object_devices (p_engines p)) = mg_device_ids mg \<and> length (p_engines p) =
      (if mg_mode mg = YStr ''tensor_parallel'' then 1 else length (mg_device_ids mg))"
  proof (cases "mg_mode mg = YStr ''tensor_parallel''")
    case True
    with assms show ?thesis
      by (auto simp: create_engine_pool_def bind_result_eq_Inr pool_engine_def create_engine_def
          object_devices_def vllm_init_def pool_init_def split: if_splits)
  next
    case False
    with assms(1) obtain es where p: "p = pool_init ''multi_instance'' es (eg_load_balancer s)"
      and es: "list_all2 (\<lambda>d e. pool_engine s 1 [d] d = Inr e) (mg_device_ids mg) es"
      by (auto simp: create_engine_pool_def bind_result_eq_Inr map_result_Inr split: if_splits)
    have "length es = length (mg_device_ids mg)" using list_all2_lengthD[OF es] by simp
    with pool_engines_devices[OF es] p False show ?thesis by (simp add: pool_init_def)
  qed
  then show "concat (map object_devices (p_engines p)) = mg_device_ids mg"
    "length (p_engines p) =
      (if mg_mode mg = YStr ''tensor_parallel'' then 1 else length (mg_device_ids mg))"
    by blast+
qed

section \<open>The startup of the service\<close>

text \<open>
  \<open>main\<close>, from the configuration to the call of \<open>start\<close> or \<open>start_paused\<close>: the pool, the
  FOC client, the schedule (\<open>None\<close>: the scheduler was not reached), the model's files.
\<close>

definition main_startup ::
  "world \<Rightarrow> engine_settings \<Rightarrow> multi_gpu_config \<Rightarrow> foc_client result \<Rightarrow> path \<Rightarrow> string \<Rightarrow>
   gpu_schedule option \<Rightarrow> fs \<Rightarrow> (engine_object pool \<times> string \<times> fs) result" where
  "main_startup w s mg foc cache_dir model schedule fs =
     bind_result (create_engine_pool s mg) (\<lambda>p.
     bind_result foc (\<lambda>client.
       let (st, r) = ensure_model client cache_dir model (fs, None) in
       bind_result r (\<lambda>path.
       let (p', res) = startup (pool_ops (object_ops w)) schedule path p in
       bind_result res (\<lambda>_. Inr (p', path, fst st)))))"

lemma main_startup_cases:
  assumes "main_startup w s mg foc cache_dir model schedule fs = Inr (p', path, fs')"
  obtains p where "create_engine_pool s mg = Inr p"
    "startup (pool_ops (object_ops w)) schedule path p = (p', Inr ())"
  using assms
  by (auto simp: main_startup_def bind_result_eq_Inr Let_def case_prod_unfold prod_eq_iff)

lemma main_startup_safe:
  assumes "main_startup w s mg foc cache_dir model schedule fs = Inr (p', path, fs')"
    and "mg_device_ids mg \<noteq> []"
  shows "pool_ok object_settled p'"
    and "op_available (pool_ops (object_ops w)) p' \<longleftrightarrow>
      (\<exists>s. schedule = Some s \<and> gs_state s = gpu_available)"
proof -
  obtain p where p: "create_engine_pool s mg = Inr p"
    "startup (pool_ops (object_ops w)) schedule path p = (p', Inr ())"
    using assms(1) by (rule main_startup_cases)
  note ok = created_pool_ok(1)[OF p(1) assms(2)] and st = created_pool_stopped[OF p(1) assms(2), of w]
  note boot = object_pool.pool.startup_respects_mining[OF ok st, of schedule path]
  show "pool_ok object_settled p'" using boot(1) p(2) by simp
  have "op_available (pool_ops (object_ops w)) p'"
    if "\<exists>s. schedule = Some s \<and> schedule_is_available s"
  proof -
    have "op_start (pool_ops (object_ops w)) path p = (p', Inr ())"
      using p(2) that by (simp add: startup_def)
    with object_pool.pool.start_running[OF ok st, of path] boot(1) p(2)
    show ?thesis by (simp add: object_pool.pool.available)
  qed
  then show "op_available (pool_ops (object_ops w)) p' \<longleftrightarrow>
      (\<exists>s. schedule = Some s \<and> gs_state s = gpu_available)"
    using boot(2) p(2) by (auto simp: schedule_is_available_def)
qed

end
