(* ===== verification/Pool_Generate.thy ===== *)
theory Pool_Generate
  imports Pool_Life
begin

text \<open>
  \<open>generate\<close> and \<open>generate_stream\<close> of \<open>EnginePool\<close>: the routed call.  What an engine's own call
  does to the engine is an argument; \<open>refuse\<close> says how the call reports that none was picked.
\<close>

section \<open>The forwarded calls\<close>

definition pool_forward ::
  "'e engine_ops \<Rightarrow> rat \<Rightarrow> string option \<Rightarrow> ('e \<Rightarrow> 'e \<times> 'r) \<Rightarrow> (py_exn \<Rightarrow> 'r) \<Rightarrow> 'e pool \<Rightarrow> 'e pool \<times> 'r" where
  "pool_forward ops now key call refuse p =
     (case route ops now key p of
        (q, Inl x) \<Rightarrow> (q, refuse x)
      | (q, Inr i) \<Rightarrow>
          (q\<lparr>p_engines := (p_engines q)[i := fst (call (p_engines q ! i))]\<rparr>,
           snd (call (p_engines q ! i))))"

definition pool_generate ::
  "'e engine_ops \<Rightarrow> rat \<Rightarrow> string option \<Rightarrow> ('e \<Rightarrow> 'e \<times> generate_result result) \<Rightarrow> 'e pool \<Rightarrow>
   'e pool \<times> generate_result result" where
  "pool_generate ops now key gen = pool_forward ops now key gen Inl"

definition pool_generate_stream ::
  "'e engine_ops \<Rightarrow> rat \<Rightarrow> string option \<Rightarrow> ('e \<Rightarrow> 'e \<times> stream_chunk list \<times> py_exn option) \<Rightarrow> 'e pool \<Rightarrow>
   'e pool \<times> stream_chunk list \<times> py_exn option" where
  "pool_generate_stream ops now key gen = pool_forward ops now key gen (\<lambda>x. ([], Some x))"

section \<open>What they leave behind\<close>

text \<open>Routing changes the round-robin index and the sessions only.\<close>

lemma flags_kept [simp]:
  "p_pause_requested (fst (balance ops av p)) = p_pause_requested p"
  "p_switching (fst (balance ops av p)) = p_switching p"
  "p_pause_requested (pin_session now k i p) = p_pause_requested p"
  "p_switching (pin_session now k i p) = p_switching p" "p_mode (pin_session now k i p) = p_mode p"
  "p_pause_requested (evict_sessions now p) = p_pause_requested p"
  "p_switching (evict_sessions now p) = p_switching p" "p_mode (evict_sessions now p) = p_mode p"
  by (simp_all add: balance_def pin_session_def evict_sessions_def)

lemma route_keeps [simp]:
  "p_engines (fst (route ops now key p)) = p_engines p"
  "p_mode (fst (route ops now key p)) = p_mode p"
  "p_pause_requested (fst (route ops now key p)) = p_pause_requested p"
  "p_switching (fst (route ops now key p)) = p_switching p"
  by (simp_all add: route_def pick_engine_def Let_def case_prod_unfold split: option.split)

text \<open>
  Two pools alike: well formed, with the same mode and flags, and engines of the same states
  and models in the same places.
\<close>

definition pool_alike :: "'e engine_ops \<Rightarrow> ('e \<Rightarrow> bool) \<Rightarrow> 'e pool \<Rightarrow> 'e pool \<Rightarrow> bool" where
  "pool_alike ops ok p q \<longleftrightarrow>
     pool_ok ok q \<and> p_mode q = p_mode p \<and> p_pause_requested q = p_pause_requested p \<and>
     map (op_state ops) (p_engines q) = map (op_state ops) (p_engines p) \<and>
     map (op_model ops) (p_engines q) = map (op_model ops) (p_engines p)"

lemma alike_refl: "pool_ok ok p \<Longrightarrow> pool_alike ops ok p p"
  by (simp add: pool_alike_def)

lemma map_update_same: "f e = f (xs ! i) \<Longrightarrow> map f (xs[i := e]) = map f xs"
  by (metis list_update_id map_update)

lemma alike_update:
  assumes "pool_ok ok p" and "p_mode q = p_mode p" and "p_pause_requested q = p_pause_requested p"
    and "p_switching q = p_switching p" and "p_engines q = (p_engines p)[i := e]"
    and "i < length (p_engines p) \<Longrightarrow> ok e \<and>
      op_state ops e = op_state ops (p_engines p ! i) \<and> op_model ops e = op_model ops (p_engines p ! i)"
  shows "pool_alike ops ok p q"
proof (cases "i < length (p_engines p)")
  case True
  have "\<forall>x \<in> set ((p_engines p)[i := e]). ok x"
    using assms(1,6) True set_update_subset_insert[of "p_engines p" i e] by (auto simp: pool_ok_def)
  with assms True show ?thesis
    by (auto simp: pool_alike_def pool_ok_def intro!: map_update_same)
next
  case False
  with assms show ?thesis by (simp add: pool_alike_def pool_ok_def list_update_beyond)
qed

text \<open>
  What the pool needs of an engine's call: unless the process ends in it, the engine stays in
  the contract, in the state it was and with its model.
\<close>

locale generating_engine = pool_of_engines ops ok
  for ops :: "'e engine_ops" and ok :: "'e \<Rightarrow> bool" +
  fixes call :: "'e \<Rightarrow> 'e \<times> 'r" and died :: "'r \<Rightarrow> bool"
  assumes ok_call: "ok e \<Longrightarrow> \<not> died (snd (call e)) \<Longrightarrow> ok (fst (call e))"
    and call_state: "ok e \<Longrightarrow> \<not> died (snd (call e)) \<Longrightarrow> op_state ops (fst (call e)) = op_state ops e"
    and call_model: "ok e \<Longrightarrow> \<not> died (snd (call e)) \<Longrightarrow> op_model ops (fst (call e)) = op_model ops e"
begin

lemma alike_available:
  assumes "pool_ok ok p" and "pool_alike ops ok p q"
  shows "op_available (pool_ops ops) q = op_available (pool_ops ops) p"
  using assms by (simp add: pool_alike_def pool_available pool_state_def)

lemma forward_alike:
  assumes "pool_ok ok p" and "pool_forward ops now key call refuse p = (q, r)" and "\<not> died r"
  shows "pool_alike ops ok p q"
proof -
  obtain p1 t where r: "route ops now key p = (p1, t)" by (cases "route ops now key p")
  note keeps = route_keeps[of ops now key p, unfolded r, simplified]
  show ?thesis
  proof (cases t)
    case (Inl x)
    with assms r keeps show ?thesis by (auto simp: pool_forward_def pool_alike_def pool_ok_def)
  next
    case (Inr i)
    let ?e = "p_engines p ! i"
    have q: "q = p1\<lparr>p_engines := (p_engines p)[i := fst (call ?e)]\<rparr>" and "\<not> died (snd (call ?e))"
      using assms(2,3) r Inr keeps by (auto simp: pool_forward_def)
    moreover have "ok ?e" if "i < length (p_engines p)"
      using assms(1) that by (simp add: pool_ok_def)
    ultimately show ?thesis
      using keeps by (intro alike_update[OF assms(1)]) (auto simp: ok_call call_state call_model)
  qed
qed

text \<open>On a pool that is available the call reaches one of its available engines.\<close>

lemma forward_reaches:
  assumes "pool_ok ok p" and "op_available (pool_ops ops) p"
  shows "\<exists>i < length (p_engines p). op_available ops (p_engines p ! i) \<and>
    snd (pool_forward ops now key call refuse p) = snd (call (p_engines p ! i)) \<and>
    p_engines (fst (pool_forward ops now key call refuse p)) =
      (p_engines p)[i := fst (call (p_engines p ! i))]"
proof -
  obtain q i where r: "route ops now key p = (q, Inr i)"
    "i < length (p_engines p)" "op_available ops (p_engines p ! i)"
  proof (cases "tensor_parallel p")
    case True
    with assms obtain e where "p_engines p = [e]" by (auto simp: pool_ok_def length_Suc_conv)
    with True assms(2) that[of p 0] show thesis
      by (auto simp: route_def first_engine_def pool_ops_def pool_is_available_def)
  next
    case False
    obtain q t where pick: "pick_engine ops now key p = (q, t)" by (cases "pick_engine ops now key p")
    have "snd (pick_engine ops now key p) \<noteq> Inl x" for x
      using pick_raises[of ops now key p] pick_raises_nothing_else[of ops now key p]
        pool_available_engines[OF assms(1)] assms(2) by metis
    with pick obtain i where t: "t = Inr i" by (cases t) auto
    with pick False that[of q i] pick_available[OF pick[unfolded t]] show thesis
      by (simp add: route_def)
  qed
  moreover have "p_engines q = p_engines p" using route_keeps(1)[of ops now key p] r(1) by simp
  ultimately show ?thesis by (intro exI[of _ i]) (simp add: pool_forward_def)
qed

end

end
