(* ===== verification/Listener_Resume.thy ===== *)
theory Listener_Resume
  imports Listener
begin

text \<open>
  The other half of the listener's work: once the GPU is free the engine serves again.  This
  needs that its pauses were acknowledged and its resumes returned, which the calls of a run
  are assumed to do here; \<open>missed_resume\<close> of \<open>Listener\<close> shows why.
\<close>

section \<open>Calls that all take effect\<close>

fun perform :: "'e engine_ops \<Rightarrow> ('e \<Rightarrow> 'e) \<Rightarrow> engine_call list \<Rightarrow> 'e \<Rightarrow> 'e result" where
  "perform ops request [] e = Inr e"
| "perform ops request (RequestPause # cs) e = perform ops request cs (request e)"
| "perform ops request (Pause u ok # cs) e = perform ops request cs (fst (op_pause ops u e))"
| "perform ops request (Resume # cs) e =
     (case op_resume ops e of (e', Inr _) \<Rightarrow> perform ops request cs e' | (e', Inl x) \<Rightarrow> Inl x)"

lemma perform_effects:
  "perform ops request cs e = Inr e' \<Longrightarrow> effects ops request e cs e'"
proof (induction ops request cs e rule: perform.induct)
  case (1 ops request e)
  then show ?case by (auto intro: effs_nil)
next
  case (2 ops request cs e)
  then show ?case by (auto intro: effs_cons eff_request)
next
  case (3 ops request u ok cs e)
  then show ?case by (auto intro: effs_cons eff_pause)
next
  case (4 ops request cs e)
  then obtain f where f: "op_resume ops e = (f, Inr ())" "perform ops request cs f = Inr e'"
    by (auto split: prod.splits sum.splits)
  then have "effect ops request e Resume f" using eff_resume[of ops e request] by simp
  with 4(1)[OF f(1)[symmetric] refl f(2)] show ?case by (intro effs_cons)
qed

section \<open>The last word was a resume\<close>

definition is_pause :: "engine_call \<Rightarrow> bool" where
  "is_pause c \<longleftrightarrow> (case c of Pause u ok \<Rightarrow> True | _ \<Rightarrow> False)"

fun resumed_since :: "engine_call list \<Rightarrow> bool" where
  "resumed_since [] = False"
| "resumed_since (c # h) = (resumed_since h \<or> (c = Resume \<and> list_all (\<lambda>c. \<not> is_pause c) h))"

lemma resumed_since_append:
  "resumed_since (h @ h') \<longleftrightarrow>
     resumed_since h' \<or> (resumed_since h \<and> list_all (\<lambda>c. \<not> is_pause c) h')"
  by (induction h) auto

definition resume_sync :: "listener \<Rightarrow> engine_call list \<Rightarrow> bool" where
  "resume_sync l h \<longleftrightarrow> (l_last_state l = Some gpu_available \<longrightarrow> resumed_since h)"

lemma apply_state_acknowledged:
  assumes "apply_state w state l = (l', calls, ok)" and "pw_pause_ok w"
  shows "calls = [] \<and> \<not> ok \<or> state = gpu_available \<and> calls = [Resume] \<and> ok \<or>
    state \<noteq> gpu_available \<and> ok"
  using assms by (auto simp: apply_state_def Let_def split: if_splits)

lemma resume_sync_apply:
  assumes "apply_state w state l = (l', calls, ok)" and "pw_pause_ok w" and "resume_sync l h"
  shows "resume_sync (if ok then l'\<lparr>l_last_state := Some state\<rparr> else l') (h @ calls)"
  using apply_state_acknowledged[OF assms(1,2)] apply_state_sel(1)[OF assms(1)] assms(3)
  by (auto simp: resume_sync_def resumed_since_append)

lemma poll_resume_sync:
  assumes "resume_sync l h" and "pw_pause_ok w"
  shows "resume_sync (fst (poll w l)) (h @ fst (snd (poll w l)))"
proof (cases "pw_schedule w")
  case None
  let ?since = "case l_disconnect_since l of None \<Rightarrow> pw_now w | Some t \<Rightarrow> t"
  let ?l = "l\<lparr>l_connected := False, l_disconnect_since := Some ?since\<rparr>"
  obtain l' calls ok where ap: "apply_state w gpu_window_post ?l = (l', calls, ok)"
    by (cases "apply_state w gpu_window_post ?l") auto
  have "resume_sync ?l h" using assms(1) by (simp add: resume_sync_def)
  from resume_sync_apply[OF ap assms(2) this]
  have "resume_sync (if ok then l'\<lparr>l_failsafe_triggered := True, l_last_state := Some gpu_window_post\<rparr>
      else l') (h @ calls)"
    by (simp add: resume_sync_def split: if_splits)
  with None ap assms(1) show ?thesis
    by (auto simp: poll_def poll_disconnected_def Let_def resume_sync_def)
next
  case (Some s)
  let ?l = "check_resume w (reconnect l)"
  have sync: "resume_sync ?l h"
    using assms(1) check_resume_sel(5)[of w "reconnect l"] reconnect_last[of l]
    by (auto simp: resume_sync_def)
  obtain l' calls ok where ap: "apply_state w (gs_state s) ?l = (l', calls, ok)"
    by (cases "apply_state w (gs_state s) ?l") auto
  from resume_sync_apply[OF ap assms(2) sync] Some ap sync show ?thesis
    by (auto simp: poll_def poll_state_def)
qed

lemma polls_resume_sync:
  assumes "resume_sync l h" and "\<forall>w \<in> set ws. pw_pause_ok w"
  shows "resume_sync (fst (polls ws l)) (h @ snd (polls ws l))"
  using assms
proof (induction ws arbitrary: l h)
  case (Cons w ws)
  have "resume_sync (fst (poll w l)) (h @ fst (snd (poll w l)))"
    using poll_resume_sync[OF Cons.prems(1)] Cons.prems(2) by simp
  with Cons.IH Cons.prems(2) show ?case by (fastforce split: prod.splits)
qed simp

lemma available_applied:
  assumes "pw_schedule w = Some s" and "gs_state s = gpu_available" and "pw_dispatch_ok w"
  shows "l_last_state (fst (poll w l)) = Some gpu_available"
  using assms by (simp add: poll_def poll_state_def apply_state_def)

text \<open>A last poll that answers AVAILABLE leaves a resume as the last word.\<close>

lemma resumed_at_last:
  assumes "\<forall>v \<in> set (vs @ [v]). pw_pause_ok v" and "pw_schedule v = Some s"
    and "gs_state s = gpu_available" and "pw_dispatch_ok v"
  shows "resumed_since (snd (polls (vs @ [v]) (listener_init b)))"
proof -
  have "resume_sync (listener_init b) []" by (simp add: resume_sync_def listener_init_def)
  from polls_resume_sync[OF this assms(1)]
  have "resume_sync (fst (polls (vs @ [v]) (listener_init b))) (snd (polls (vs @ [v]) (listener_init b)))"
    by simp
  moreover have "l_last_state (fst (polls (vs @ [v]) (listener_init b))) = Some gpu_available"
    using available_applied[OF assms(2-4)] by (simp add: polls_append case_prod_unfold Let_def)
  ultimately show ?thesis by (simp add: resume_sync_def)
qed

section \<open>An engine that comes back\<close>

text \<open>
  What the listener relies on here: nothing it calls stops the engine, and a resume that returns
  brings it up, all of it, for as long as it is not paused.
\<close>

locale resumable_engine = preemptible_engine ops ok request
  for ops :: "'e engine_ops" and ok :: "'e \<Rightarrow> bool" and request :: "'e \<Rightarrow> 'e" +
  fixes alive :: "'e \<Rightarrow> bool" and up :: "'e \<Rightarrow> bool"
  assumes alive_request: "ok e \<Longrightarrow> alive e \<Longrightarrow> alive (request e)"
    and alive_pause: "ok e \<Longrightarrow> alive e \<Longrightarrow> alive (fst (op_pause ops u e))"
    and alive_resume: "ok e \<Longrightarrow> alive e \<Longrightarrow> snd (op_resume ops e) = Inr () \<Longrightarrow>
      alive (fst (op_resume ops e))"
    and resume_up: "ok e \<Longrightarrow> alive e \<Longrightarrow> snd (op_resume ops e) = Inr () \<Longrightarrow>
      up (fst (op_resume ops e))"
    and up_request: "ok e \<Longrightarrow> up e \<Longrightarrow> up (request e)"
begin

lemma perform_stays_up:
  "perform ops request cs e = Inr e' \<Longrightarrow> ok e \<Longrightarrow> alive e \<Longrightarrow> up e \<Longrightarrow>
   list_all (\<lambda>c. \<not> is_pause c) cs \<Longrightarrow> up e'"
proof (induction cs arbitrary: e)
  case (Cons c cs)
  show ?case
  proof (cases c)
    case RequestPause
    with Cons show ?thesis by (auto intro: alive_request ok_request up_request)
  next
    case (Pause u b)
    with Cons.prems show ?thesis by (simp add: is_pause_def)
  next
    case Resume
    with Cons.prems obtain f where f: "op_resume ops e = (f, Inr ())" "perform ops request cs f = Inr e'"
      by (auto split: prod.splits sum.splits)
    then have "ok f" "alive f" "up f"
      using ok_resume[of e] alive_resume[of e] resume_up[of e] Cons.prems by simp_all
    with Cons.IH[OF f(2)] Cons.prems show ?thesis by simp
  qed
qed simp

lemma resumed_since_up:
  "perform ops request cs e = Inr e' \<Longrightarrow> ok e \<Longrightarrow> alive e \<Longrightarrow> resumed_since cs \<Longrightarrow> up e'"
proof (induction cs arbitrary: e)
  case (Cons c cs)
  show ?case
  proof (cases c)
    case RequestPause
    with Cons show ?thesis by (auto intro: alive_request ok_request)
  next
    case (Pause u b)
    with Cons show ?thesis by (auto intro: alive_pause ok_pause)
  next
    case Resume
    with Cons.prems obtain f where f: "op_resume ops e = (f, Inr ())" "perform ops request cs f = Inr e'"
      by (auto split: prod.splits sum.splits)
    then have "ok f" "alive f" "up f"
      using ok_resume[of e] alive_resume[of e] resume_up[of e] Cons.prems by simp_all
    with Cons.IH[OF f(2)] perform_stays_up[OF f(2)] Cons.prems(4) show ?thesis by auto
  qed
qed simp

lemma free_gpu_is_used:
  assumes "\<forall>v \<in> set (vs @ [v]). pw_pause_ok v" and "pw_schedule v = Some s"
    and "gs_state s = gpu_available" and "pw_dispatch_ok v"
    and "perform ops request (snd (polls (vs @ [v]) (listener_init b))) e = Inr e'"
    and "ok e" and "alive e"
  shows "up e'"
  using resumed_since_up[OF assms(5-7) resumed_at_last[OF assms(1-4)]] .

end

text \<open>A single engine, and a pool, all of whose engines come back.\<close>

context engine_contract
begin

lemma settled_up:
  "ok e \<Longrightarrow> op_state ops e \<noteq> STOPPED \<Longrightarrow> snd (op_resume ops e) = Inr () \<Longrightarrow>
   op_available ops (fst (op_resume ops e))"
  using settled[of e] by (auto simp: available ok_resume resume_state)

end

interpretation vllm_resumes: resumable_engine "vllm_ops w" vllm_settled "\<lambda>e. e"
    "\<lambda>e. op_state (vllm_ops w) e \<noteq> STOPPED" "\<lambda>e. op_available (vllm_ops w) e" for w
  by unfold_locales (simp_all add: vllm.pause_state vllm.resume_state vllm.settled_up)

definition pool_alive :: "'e engine_ops \<Rightarrow> 'e pool \<Rightarrow> bool" where
  "pool_alive ops p \<longleftrightarrow> (\<forall>e \<in> set (p_engines p). op_state ops e \<noteq> STOPPED)"

definition pool_up :: "'e engine_ops \<Rightarrow> 'e pool \<Rightarrow> bool" where
  "pool_up ops p \<longleftrightarrow> (\<forall>e \<in> set (p_engines p). op_available ops e)"

context pool_of_engines
begin

lemma pool_resumable:
  "resumable_engine (pool_ops ops) (pool_ok ok) request_pause (pool_alive ops) (pool_up ops)"
proof unfold_locales
  fix p :: "'e pool" and u
  assume ok: "pool_ok ok p"
  show "pool_alive ops p \<Longrightarrow> pool_alive ops (request_pause p)"
    by (simp add: pool_alive_def request_pause_def)
  show "pool_up ops p \<Longrightarrow> pool_up ops (request_pause p)" by (simp add: pool_up_def request_pause_def)
  show "pool_alive ops p \<Longrightarrow> pool_alive ops (fst (op_pause (pool_ops ops) u p))"
    using pool_engine_ok[OF ok] by (simp add: pool_alive_def pool_ops_def pool_pause_def engine.pause_state)
  assume alive: "pool_alive ops p" and ret: "snd (op_resume (pool_ops ops) p) = Inr ()"
  have engines: "p_engines (fst (op_resume (pool_ops ops) p)) =
      map (\<lambda>e. fst (op_resume ops e)) (p_engines p)" "\<forall>e \<in> set (p_engines p). snd (op_resume ops e) = Inr ()"
    using resume_engines[OF ok] ret by (simp_all add: pool_ops_def)
  show "pool_alive ops (fst (op_resume (pool_ops ops) p))"
    using engines alive pool_engine_ok[OF ok] by (simp add: pool_alive_def engine.resume_state)
  show "pool_up ops (fst (op_resume (pool_ops ops) p))"
    using engines alive pool_engine_ok[OF ok] engine.settled_up by (simp add: pool_alive_def pool_up_def)
qed

end

end
