(* ===== verification/Backend.thy ===== *)
theory Backend
  imports Wiring Requests Pool_Generate Listener_Resume
begin

text \<open>
  The handlers' \<open>generate\<close> and \<open>generate_stream\<close> as the service has them: the request goes
  through the pool's routing to an engine object, whose call serves it alone, and the pool it
  leaves behind is the one the next step sees.
\<close>

section \<open>Generation by an engine object\<close>

text \<open>
  What the world brings to one request: the id vLLM is given, the outputs of its generator for
  a prompt and sampling parameters, and the clock at the routing.
\<close>

record backend =
  bk_rid :: string
  bk_events :: "string \<Rightarrow> sampling \<Rightarrow> gen_event list"
  bk_now :: rat

definition request_sampling :: "completion_args \<Rightarrow> sampling" where
  "request_sampling a =
     sampling_params (Some (ca_max_tokens a)) (Some (ca_temperature a)) (Some (ca_top_p a)) (ca_stop a)"

definition object_generate ::
  "world \<Rightarrow> backend \<Rightarrow> string \<Rightarrow> completion_args \<Rightarrow> engine_object \<Rightarrow>
   engine_object \<times> generate_result result" where
  "object_generate w bk prompt a e =
     (case e of
        MockObj m \<Rightarrow>
          (e, mock_generate (mock_is_available m) (m_gpu_id m) prompt (Some (ca_max_tokens a)))
      | VllmObj v \<Rightarrow>
          map_prod VllmObj id
            (vllm_generate w (bk_rid bk) (bk_events bk prompt (request_sampling a)) v))"

definition object_generate_stream ::
  "world \<Rightarrow> backend \<Rightarrow> string \<Rightarrow> completion_args \<Rightarrow> engine_object \<Rightarrow>
   engine_object \<times> stream_chunk list \<times> py_exn option" where
  "object_generate_stream w bk prompt a e =
     (case e of
        MockObj m \<Rightarrow> (e, mock_generate_stream (mock_is_available m) prompt)
      | VllmObj v \<Rightarrow>
          map_prod VllmObj id
            (vllm_generate_stream w (bk_rid bk) (bk_events bk prompt (request_sampling a)) v))"

text \<open>The call ends the process when the core dies and no reload brings a new one.\<close>

lemma vllm_generate_laws:
  assumes "vllm_settled v" and "snd (vllm_generate w rid evs v) \<noteq> Inl ProcessExit"
  shows "vllm_settled (fst (vllm_generate w rid evs v)) \<and>
    e_state (fst (vllm_generate w rid evs v)) = e_state v \<and>
    e_model (fst (vllm_generate w rid evs v)) = e_model v"
  using serve_request_laws[OF assms(1), of w rid False evs] assms(2)
  by (auto simp: vllm_generate_def split: prod.splits sum.splits)

lemma vllm_generate_stream_laws:
  assumes "vllm_settled v" and "snd (snd (vllm_generate_stream w rid evs v)) \<noteq> Some ProcessExit"
  shows "vllm_settled (fst (vllm_generate_stream w rid evs v)) \<and>
    e_state (fst (vllm_generate_stream w rid evs v)) = e_state v \<and>
    e_model (fst (vllm_generate_stream w rid evs v)) = e_model v"
  using serve_request_laws[OF assms(1), of w rid True evs] assms(2)
  by (auto simp: vllm_generate_stream_def split: prod.splits sum.splits)

interpretation served: generating_engine "object_ops w" object_settled
    "object_generate w bk prompt a" "\<lambda>r. r = Inl ProcessExit"
  for w bk prompt a
proof unfold_locales
  fix e assume e: "object_settled e" "snd (object_generate w bk prompt a e) \<noteq> Inl ProcessExit"
  have "object_settled (fst (object_generate w bk prompt a e)) \<and>
      op_state (object_ops w) (fst (object_generate w bk prompt a e)) = op_state (object_ops w) e \<and>
      op_model (object_ops w) (fst (object_generate w bk prompt a e)) = op_model (object_ops w) e"
  proof (cases e)
    case (VllmObj v)
    with e vllm_generate_laws[of v w] show ?thesis
      by (simp add: object_generate_def vllm_ops_def status_def current_model_def)
  qed (use e in \<open>simp add: object_generate_def\<close>)
  then show "object_settled (fst (object_generate w bk prompt a e))"
    "op_state (object_ops w) (fst (object_generate w bk prompt a e)) = op_state (object_ops w) e"
    "op_model (object_ops w) (fst (object_generate w bk prompt a e)) = op_model (object_ops w) e"
    by blast+
qed

interpretation streamed: generating_engine "object_ops w" object_settled
    "object_generate_stream w bk prompt a" "\<lambda>r. snd r = Some ProcessExit"
  for w bk prompt a
proof unfold_locales
  fix e assume e: "object_settled e"
    "snd (snd (object_generate_stream w bk prompt a e)) \<noteq> Some ProcessExit"
  have "object_settled (fst (object_generate_stream w bk prompt a e)) \<and>
      op_state (object_ops w) (fst (object_generate_stream w bk prompt a e)) = op_state (object_ops w) e \<and>
      op_model (object_ops w) (fst (object_generate_stream w bk prompt a e)) = op_model (object_ops w) e"
  proof (cases e)
    case (VllmObj v)
    with e vllm_generate_stream_laws[of v w] show ?thesis
      by (simp add: object_generate_stream_def vllm_ops_def status_def current_model_def)
  qed (use e in \<open>simp add: object_generate_stream_def\<close>)
  then show "object_settled (fst (object_generate_stream w bk prompt a e))"
    "op_state (object_ops w) (fst (object_generate_stream w bk prompt a e)) = op_state (object_ops w) e"
    "op_model (object_ops w) (fst (object_generate_stream w bk prompt a e)) = op_model (object_ops w) e"
    by blast+
qed

text \<open>The listener brings all engines of such a pool back.\<close>

interpretation object_resumes: resumable_engine "pool_ops (object_ops w)" "pool_ok object_settled"
    request_pause "pool_alive (object_ops w)" "pool_up (object_ops w)" for w
  by (rule pool_of_engines.pool_resumable[OF object_pool.pool_of_engines_axioms])

section \<open>The handlers on the pool\<close>

definition wired ::
  "world \<Rightarrow> backend \<Rightarrow> (engine_object pool, 'k) request_world \<Rightarrow> (engine_object pool, 'k) request_world" where
  "wired w bk v =
     v\<lparr>rw_generate := (\<lambda>prompt key a.
         pool_generate (object_ops w) (bk_now bk) key (object_generate w bk prompt a)),
       rw_stream := (\<lambda>prompt key a.
         pool_generate_stream (object_ops w) (bk_now bk) key (object_generate_stream w bk prompt a))\<rparr>"

lemma wired_sel [simp]:
  "rw_ensure (wired w bk v) = rw_ensure v" "rw_wait_lock (wired w bk v) = rw_wait_lock v"
  "rw_lock_held (wired w bk v) = rw_lock_held v" "rw_crypto (wired w bk v) = rw_crypto v"
  "rw_signer (wired w bk v) = rw_signer v" "rw_time (wired w bk v) = rw_time v"
  "rw_generate (wired w bk v) prompt key a =
     pool_generate (object_ops w) (bk_now bk) key (object_generate w bk prompt a)"
  "rw_stream (wired w bk v) prompt key a =
     pool_generate_stream (object_ops w) (bk_now bk) key (object_generate_stream w bk prompt a)"
  by (simp_all add: wired_def)

end
