(* ===== verification/Service.thy ===== *)
theory Service
  imports Backend
begin

text \<open>
  The running service: the listener's polls and the API's requests act on one pool, in any
  order, from the end of \<open>main\<close>'s startup to its shutdown.  Each step is a whole call; calls
  that overlap are the subject of \<open>Pool_Loop\<close>.
\<close>

section \<open>Steps of the service\<close>

record service =
  sv_pool :: "engine_object pool"
  sv_listener :: listener

text \<open>
  A poll, with what its calls do to the pool, or a request to one of the three routes, whose
  generation goes through the pool; a request during which the process exits has no next
  state.
\<close>

inductive serve ::
  "world \<Rightarrow> api_config \<Rightarrow> (string \<Rightarrow> string) \<Rightarrow> 'k crypto \<Rightarrow> service \<Rightarrow> service \<Rightarrow> bool"
  for w :: world and cfg :: api_config and sha :: "string \<Rightarrow> string" and cr :: "'k crypto" where
  serve_poll: "poll v l = (l', calls, report) \<Longrightarrow>
    effects (pool_ops (object_ops w)) request_pause p calls p' \<Longrightarrow>
    serve w cfg sha cr \<lparr>sv_pool = p, sv_listener = l\<rparr> \<lparr>sv_pool = p', sv_listener = l'\<rparr>"
| serve_chat: "chat_completions (pool_ops (object_ops w)) sha cfg (wired w bk v) hdr body ms args p =
      (p', reply) \<Longrightarrow>
    reply \<noteq> Crash ProcessExit \<Longrightarrow> rw_wait_lock v p = p \<Longrightarrow> rw_crypto v = cr \<Longrightarrow>
    serve w cfg sha cr \<lparr>sv_pool = p, sv_listener = l\<rparr> \<lparr>sv_pool = p', sv_listener = l\<rparr>"
| serve_text: "completions (pool_ops (object_ops w)) sha cfg (wired w bk v) hdr body prompt args p =
      (p', reply) \<Longrightarrow>
    reply \<noteq> Crash ProcessExit \<Longrightarrow> rw_wait_lock v p = p \<Longrightarrow> rw_crypto v = cr \<Longrightarrow>
    serve w cfg sha cr \<lparr>sv_pool = p, sv_listener = l\<rparr> \<lparr>sv_pool = p', sv_listener = l\<rparr>"
| serve_stream: "chat_stream (pool_ops (object_ops w)) sha cfg (wired w bk v) hdr body ms args p =
      (p', events) \<Longrightarrow>
    events \<noteq> Crash ProcessExit \<Longrightarrow> (\<And>evs. events \<noteq> Ok (evs, Some ProcessExit)) \<Longrightarrow>
    rw_wait_lock v p = p \<Longrightarrow> rw_crypto v = cr \<Longrightarrow>
    serve w cfg sha cr \<lparr>sv_pool = p, sv_listener = l\<rparr> \<lparr>sv_pool = p', sv_listener = l\<rparr>"

text \<open>\<open>main\<close> after the server has ended: the listener's thread and the channel, then the pool.\<close>

definition main_shutdown :: "world \<Rightarrow> engine_object pool \<Rightarrow> engine_object pool \<times> unit result" where
  "main_shutdown w p = pool_stop (object_ops w) p"

section \<open>What a request does to the pool\<close>

text \<open>A switch fails only by exiting the process.\<close>

lemma object_switch_result:
  assumes "object_settled e"
  shows "snd (op_switch (object_ops w) path e) \<in> {Inr (), Inl ProcessExit}"
proof (cases e)
  case (MockObj m)
  then show ?thesis
    by (simp add: mock_ops_def mock_switch_model_def mock_pause_def mock_resume_def Let_def)
next
  case (VllmObj v)
  with assms have ok: "vllm_settled v" by simp
  have "snd (run_call w (CSwitch path) v) \<in> {Inr (), Inl ProcessExit}"
    using run_switch_current[OF ok, of path w] run_switch_stopped[OF ok, of w path]
      run_switch_up[OF ok, of path w]
    by (cases "e_state v = STOPPED"; cases "e_model v = path \<and> e_state v = RUNNING")
       (auto split: option.splits)
  with VllmObj show ?thesis by (simp add: vllm_ops_def)
qed

lemma first_error_in:
  "set rs \<subseteq> {Inr (), Inl x} \<Longrightarrow> first_error rs \<in> {Inr (), Inl x}"
  by (induction rs rule: first_error.induct) auto

lemma run_loop_result:
  assumes "\<forall>e \<in> set (drop i (p_engines p)). snd (f e) \<in> {Inr (), Inl x}"
  shows "snd (run_loop f i p) \<in> {Inr (), Inl x}"
  using assms
proof (induction f i p rule: run_loop.induct)
  case (1 f i p)
  show ?case
  proof (cases "snd (loop_turn f i p)")
    case None
    then have i: "i < length (p_engines p)" using loop_turn_continues by blast
    have "p_engines (fst (loop_turn f i p)) = (p_engines p)[i := fst (f (p_engines p ! i))]"
      using None by (auto simp: loop_turn_def split: if_splits)
    then have "drop (Suc i) (p_engines (fst (loop_turn f i p))) = drop (Suc i) (p_engines p)"
      by (simp add: drop_update_cancel)
    moreover have "set (drop (Suc i) (p_engines p)) \<subseteq> set (drop i (p_engines p))"
      by (rule set_drop_subset_set_drop) simp
    ultimately have "snd (run_loop f (Suc i) (fst (loop_turn f i p))) \<in> {Inr (), Inl x}"
      using "1.IH"[OF None] "1.prems" by (metis subsetD)
    with None show ?thesis by (subst run_loop.simps) simp
  next
    case (Some r)
    have "r \<in> {Inr (), Inl x}"
    proof (cases "length (p_engines p) \<le> i \<or> p_pause_requested p")
      case False
      then have "p_engines p ! i \<in> set (drop i (p_engines p))"
        by (metis Cons_nth_drop_Suc list.set_intros(1) not_le)
      with "1.prems" have "snd (f (p_engines p ! i)) \<in> {Inr (), Inl x}" by blast
      with False Some show ?thesis by (auto simp: loop_turn_def)
    qed (use Some in \<open>auto simp: loop_turn_def\<close>)
    with Some show ?thesis by (subst run_loop.simps) simp
  qed
qed

lemma pool_switch_result:
  assumes "pool_ok object_settled p"
  shows "snd (pool_switch_model (object_ops w) path p) \<in> {Inr (), Inl ProcessExit}"
proof -
  let ?p = "p\<lparr>p_switching := True\<rparr>" and ?f = "op_switch (object_ops w) path"
  have ok: "snd (?f e) \<in> {Inr (), Inl ProcessExit}" if "e \<in> set (p_engines p)" for e
    using that assms object_switch_result by (simp add: pool_ok_def)
  have "snd (run_loop ?f 0 ?p) \<in> {Inr (), Inl ProcessExit}"
    using ok by (intro run_loop_result) simp
  moreover have "first_error (map (\<lambda>e. snd (?f e)) (p_engines p)) \<in> {Inr (), Inl ProcessExit}"
    using ok by (intro first_error_in) auto
  then have "snd (gather ?f ?p) \<in> {Inr (), Inl ProcessExit}" by (simp add: gather_def)
  ultimately show ?thesis by (simp add: pool_switch_model_alt Let_def)
qed

text \<open>
  The guards may switch the model; after that the pool is the same but for what a generation
  does to it.
\<close>

definition switched :: "world \<Rightarrow> engine_object pool \<Rightarrow> engine_object pool \<Rightarrow> bool" where
  "switched w p q \<longleftrightarrow> q = p \<or> (\<exists>path. pool_switch_model (object_ops w) path p = (q, Inr ()))"

definition request_changes :: "world \<Rightarrow> engine_object pool \<Rightarrow> engine_object pool \<Rightarrow> bool" where
  "request_changes w p q \<longleftrightarrow>
     (\<exists>p1. switched w p p1 \<and> pool_alike (object_ops w) object_settled p1 q)"

lemma switched_ok:
  assumes "switched w p q" and "pool_ok object_settled p"
  shows "pool_ok object_settled q"
  using assms object_pool.pool.ok_switch[OF assms(2), of w]
  by (auto simp: switched_def pool_ops_def) (metis fst_conv snd_conv)

lemma ensured_ok:
  assumes "ensure_model_loaded (pool_ops (object_ops w)) cfg ensure r wait_lock p = (q, Inr ())"
    and "pool_ok object_settled p" and "pool_ok object_settled (wait_lock p)"
  shows "pool_ok object_settled q"
proof -
  have "op_switch (pool_ops (object_ops w)) path = pool_switch_model (object_ops w) path" for path
    by (simp add: pool_ops_def)
  with assms have "q = p \<or> switched w (wait_lock p) q"
    by (auto simp: switched_def ensure_model_loaded_def switch_locked_def
        split: sum.splits prod.splits if_splits)
  with assms(2,3) switched_ok show ?thesis by blast
qed

lemma guard_effect:
  assumes "guard_request (pool_ops (object_ops w)) cfg v hdr args p = (q, g)"
    and "g \<noteq> Inl (Crash ProcessExit)" and "rw_wait_lock v p = p" and "pool_ok object_settled p"
  shows "switched w p q"
proof -
  have "op_switch (pool_ops (object_ops w)) path = pool_switch_model (object_ops w) path" for path
    by (simp add: pool_ops_def)
  moreover have "x = ProcessExit" if "pool_switch_model (object_ops w) path p = (q, Inl x)" for path q x
    using pool_switch_result[OF assms(4), of w path] that by simp
  ultimately show ?thesis
    using assms
    by (auto simp: switched_def guard_request_def ensure_model_loaded_def switch_locked_def
        split: sum.splits py_exn.splits prod.splits if_splits)
qed

lemma handler_effect:
  assumes "chat_completions (pool_ops (object_ops w)) sha cfg (wired w bk v) hdr body ms args p = (q, reply) \<or>
      completions (pool_ops (object_ops w)) sha cfg (wired w bk v) hdr body prompt args p = (q, reply)"
    and "reply \<noteq> Crash ProcessExit" and "rw_wait_lock v p = p" and "pool_ok object_settled p"
  shows "request_changes w p q"
proof -
  obtain g p1 where g:
    "guard_request (pool_ops (object_ops w)) cfg (wired w bk v) hdr args p = (p1, g :: completion reply + unit)"
    "\<And>r. g = Inl r \<Longrightarrow> reply = r \<and> q = p1"
    "\<And>u. g = Inr u \<Longrightarrow> \<exists>pr key. answer_completion sha (wired w bk v) hdr body pr key args p1 = (q, reply)"
    using handlers_guarded[OF assms(1)] by metis
  have "g \<noteq> Inl (Crash ProcessExit)" using g(2) assms(2) by blast
  from guard_effect[OF g(1) this] assms(3,4) have sw: "switched w p p1" by simp
  note ok = switched_ok[OF sw assms(4)]
  have "pool_alike (object_ops w) object_settled p1 q"
  proof (cases g)
    case (Inl r)
    with g(2) alike_refl[OF ok] show ?thesis by simp
  next
    case (Inr u)
    then obtain pr key where "answer_completion sha (wired w bk v) hdr body pr key args p1 = (q, reply)"
      using g(3) by blast
    then obtain pr' res where
      "pool_generate (object_ops w) (bk_now bk) key (object_generate w bk pr' args) p1 = (q, res)"
      "reply = finish_completion (receipt_maker sha (wired w bk v) hdr body) sha (ca_model args) res"
      by (fastforce simp: answer_completion_def split: prod.splits)
    moreover from this(2) assms(2) have "res \<noteq> Inl ProcessExit" by (auto simp: finish_completion_def)
    ultimately show ?thesis unfolding pool_generate_def by (intro served.forward_alike[OF ok])
  qed
  with sw show ?thesis by (auto simp: request_changes_def)
qed

lemma stream_effect:
  assumes "chat_stream (pool_ops (object_ops w)) sha cfg (wired w bk v) hdr body ms args p = (q, events)"
    and "events \<noteq> Crash ProcessExit" and "\<forall>evs. events \<noteq> Ok (evs, Some ProcessExit)"
    and "rw_wait_lock v p = p" and "pool_ok object_settled p"
  shows "request_changes w p q"
proof -
  obtain p1 g where g: "guard_request (pool_ops (object_ops w)) cfg (wired w bk v) hdr args p =
      (p1, g :: (sse_event list \<times> py_exn option) reply + unit)"
    by (cases "guard_request (pool_ops (object_ops w)) cfg (wired w bk v) hdr args p ::
      engine_object pool \<times> ((sse_event list \<times> py_exn option) reply + unit)")
  have "g \<noteq> Inl (Crash ProcessExit)" using g assms(1,2) by (auto simp: chat_stream_def)
  from guard_effect[OF g this] assms(4,5) have sw: "switched w p p1" by simp
  note ok = switched_ok[OF sw assms(5)]
  have "pool_alike (object_ops w) object_settled p1 q"
  proof (cases g)
    case (Inl r)
    with g assms(1) alike_refl[OF ok] show ?thesis by (simp add: chat_stream_def)
  next
    case (Inr u)
    then obtain pr key stream where
      "pool_generate_stream (object_ops w) (bk_now bk) key (object_generate_stream w bk pr args) p1 =
         (q, stream)"
      "events = Ok (sse_generator (receipt_maker sha (wired w bk v) hdr body) sha (ca_model args)
         (hdr ''x-om-receipt-req'' = Some ''1'') stream)"
      using g assms(1) by (auto simp: chat_stream_def split: prod.splits)
    moreover from this(2) assms(3) have "snd stream \<noteq> Some ProcessExit"
      by (auto simp: sse_generator_def split: prod.splits)
    ultimately show ?thesis unfolding pool_generate_stream_def by (intro streamed.forward_alike[OF ok])
  qed
  with sw show ?thesis by (auto simp: request_changes_def)
qed

text \<open>The three routes have the guards in common, and all generate alike.\<close>

lemma request_effect:
  assumes "serve w cfg sha cr s t" and "pool_ok object_settled (sv_pool s)"
  shows "(\<exists>v l' calls report. poll v (sv_listener s) = (l', calls, report) \<and> sv_listener t = l' \<and>
      effects (pool_ops (object_ops w)) request_pause (sv_pool s) calls (sv_pool t)) \<or>
    sv_listener t = sv_listener s \<and> request_changes w (sv_pool s) (sv_pool t)"
  using assms(1)
proof (cases rule: serve.cases)
  case (serve_chat bk v hdr body ms args p p' reply l)
  with handler_effect[OF disjI1[OF serve_chat(3)]] assms(2) show ?thesis by simp
next
  case (serve_text bk v hdr body prompt args p p' reply l)
  with handler_effect[OF disjI2[OF serve_text(3)]] assms(2) show ?thesis by simp
next
  case (serve_stream bk v hdr body ms args p p' events l)
  with stream_effect[OF serve_stream(3)] assms(2) show ?thesis by simp
qed auto

section \<open>Invariants of the service\<close>

lemma serve_pool_ok:
  assumes "serve w cfg sha cr s t" and "pool_ok object_settled (sv_pool s)"
  shows "pool_ok object_settled (sv_pool t)"
  using request_effect[OF assms] object_pool.preempt.effects_ok assms(2)
  by (auto simp: request_changes_def pool_alike_def)

lemma serves_pool_ok:
  "(serve w cfg sha cr)\<^sup>*\<^sup>* s t \<Longrightarrow> pool_ok object_settled (sv_pool s) \<Longrightarrow>
   pool_ok object_settled (sv_pool t)"
  by (induction rule: rtranclp_induct) (auto intro: serve_pool_ok)

text \<open>The calls of one poll, for a preemptible engine.\<close>

lemma apply_state_sends:
  assumes "apply_state v st l = (l', calls, ok)" and "l_preemptible l"
  shows "calls = [] \<and> \<not> ok \<or> calls = [Resume] \<and> ok \<and> st = gpu_available \<or>
    (\<exists>u. calls = [RequestPause, Pause u ok])"
  using assms by (auto simp: apply_state_def Let_def split: if_splits)

lemma poll_calls:
  assumes "poll v l = (l', calls, report)" and "l_preemptible l"
  shows "l_preemptible l' \<and>
    (calls = [] \<and> l_last_state l' \<in> {None, l_last_state l} \<or>
     calls = [Resume] \<and> l_last_state l' = Some gpu_available \<or>
     (\<exists>u ok. calls = [RequestPause, Pause u ok] \<and> (ok \<or> l_last_state l' \<in> {None, l_last_state l})))"
proof (cases "pw_schedule v")
  case None
  let ?since = "case l_disconnect_since l of None \<Rightarrow> pw_now v | Some t \<Rightarrow> t"
  let ?l = "l\<lparr>l_connected := False, l_disconnect_since := Some ?since\<rparr>"
  obtain l2 cs ok where ap: "apply_state v gpu_window_post ?l = (l2, cs, ok)"
    by (cases "apply_state v gpu_window_post ?l") auto
  have "gpu_window_post \<noteq> gpu_available" by (simp add: gpu_states)
  with None assms ap apply_state_sends[OF ap] apply_state_sel(1,5)[OF ap] show ?thesis
    by (auto simp: poll_def poll_disconnected_def Let_def split: if_splits)
next
  case (Some s)
  let ?l = "check_resume v (reconnect l)"
  have last: "l_last_state ?l \<in> {None, l_last_state l}" and pre: "l_preemptible ?l"
    using check_resume_sel(5)[of v "reconnect l"] reconnect_last[of l] assms(2) by auto
  obtain l2 cs ok where ap: "apply_state v (gs_state s) ?l = (l2, cs, ok)"
    by (cases "apply_state v (gs_state s) ?l") auto
  note sel = apply_state_sel(1,5)[OF ap]
  show ?thesis
  proof (cases "Some (gs_state s) = l_last_state ?l")
    case True
    with Some assms last pre show ?thesis by (auto simp: poll_def poll_state_def)
  next
    case False
    with Some assms ap have "l' = (if ok then l2\<lparr>l_last_state := Some (gs_state s)\<rparr> else l2)"
      "calls = cs"
      by (auto simp: poll_def poll_state_def)
    with apply_state_sends[OF ap pre] sel last pre show ?thesis by auto
  qed
qed

text \<open>
  In multi-instance mode a yield that the listener has applied stays in force: the pool is
  down and its request flag is up, which only a resume takes back, and which ends every switch
  before its first engine.
\<close>

definition yield_in_force :: "service \<Rightarrow> bool" where
  "yield_in_force s \<longleftrightarrow>
     pool_ok object_settled (sv_pool s) \<and> multi_instance (sv_pool s) \<and>
     l_preemptible (sv_listener s) \<and>
     (\<forall>st \<in> yield_states. l_last_state (sv_listener s) = Some st \<longrightarrow>
        p_pause_requested (sv_pool s) \<and>
        (\<forall>w. \<not> op_available (pool_ops (object_ops w)) (sv_pool s)))"

text \<open>Whether a pool is available does not depend on what the world does next.\<close>

lemma object_available_world: "op_available (object_ops w) e = op_available (object_ops w') e"
  by (cases e) (simp_all add: vllm_ops_def)

lemma pool_available_world:
  "op_available (pool_ops (object_ops w)) p = op_available (pool_ops (object_ops w')) p"
proof -
  have "op_available (object_ops w) = op_available (object_ops w')"
    by (rule ext) (rule object_available_world)
  then show ?thesis by (simp add: pool_ops_def pool_is_available_def first_engine_def split: list.split)
qed

lemma switch_keeps_request [simp]:
  "p_pause_requested (fst (pool_switch_model ops path p)) = p_pause_requested p"
  by (simp add: pool_switch_model_alt Let_def)

lemma switch_aborted:
  assumes "multi_instance p" and "p_pause_requested p" and "\<not> p_switching p"
  shows "pool_switch_model ops path p = (p, Inr ())"
  using assms by (simp add: pool_switch_model_alt Let_def run_loop_paused)

lemma effects_one: "effects ops request e [c] e' \<Longrightarrow> effect ops request e c e'"
  by (auto elim: effects_ConsE effects_NilE)

lemma effects_yield:
  assumes "effects ops request e [RequestPause, Pause u ok] e'"
  shows "e' = fst (op_pause ops u (request e)) \<or> \<not> ok \<and> e' = request e"
  using assms by (auto elim!: effects_ConsE effects_NilE effectE)

lemma pool_pause_flags [simp]:
  "p_pause_requested (fst (pool_pause ops u p))" "p_mode (fst (pool_pause ops u p)) = p_mode p"
  "p_pause_requested (request_pause p)" "p_mode (request_pause p) = p_mode p"
  by (simp_all add: pool_pause_def request_pause_def)

lemma poll_keeps_yield:
  assumes "yield_in_force s" and "poll v (sv_listener s) = (l', calls, report)"
    and "effects (pool_ops (object_ops w)) request_pause (sv_pool s) calls p'"
  shows "yield_in_force \<lparr>sv_pool = p', sv_listener = l'\<rparr>"
proof -
  let ?p = "sv_pool s" and ?ops = "pool_ops (object_ops w)"
  have ok: "pool_ok object_settled ?p" and multi: "multi_instance ?p"
    and pre: "l_preemptible (sv_listener s)"
    using assms(1) by (auto simp: yield_in_force_def)
  have ok': "pool_ok object_settled p'"
    using object_pool.preempt.effects_ok assms(3) ok by blast
  have old: "p_pause_requested ?p \<and> (\<forall>w. \<not> op_available (pool_ops (object_ops w)) ?p)"
    if "l_last_state (sv_listener s) = Some st" "st \<in> yield_states" for st
    using assms(1) that by (auto simp: yield_in_force_def)
  note calls = poll_calls[OF assms(2) pre]
  have req: "pool_ok object_settled (request_pause ?p)" by (rule object_pool.preempt.ok_request[OF ok])
  consider (none) "p' = ?p" "l_last_state l' \<in> {None, l_last_state (sv_listener s)}"
    | (resume) "l_last_state l' = Some gpu_available" "p' = ?p \<or> p' = fst (pool_resume (object_ops w) ?p)"
    | (paused) u where "p' = fst (pool_pause (object_ops w) u (request_pause ?p))"
    | (asked) "p' = request_pause ?p" "l_last_state l' \<in> {None, l_last_state (sv_listener s)}"
    using calls assms(3) effects_yield
    by (fastforce simp: pool_ops_def elim: effects_NilE dest: effects_one elim!: effectE)
  then show ?thesis
  proof cases
    case none
    with ok' multi calls old show ?thesis by (auto simp: yield_in_force_def)
  next
    case resume
    have "gpu_available \<notin> yield_states" by (simp add: yield_states_def gpu_states)
    with resume ok' multi calls show ?thesis
      by (auto simp: yield_in_force_def object_pool.resume_sel)
  next
    case (paused u)
    have "\<not> op_available ?ops (fst (op_pause ?ops u (request_pause ?p)))"
      by (rule object_pool.pool.pause_unavailable[OF req])
    then have "\<not> op_available ?ops p'" using paused by (simp add: pool_ops_def)
    with pool_available_world have "\<forall>w. \<not> op_available (pool_ops (object_ops w)) p'" by metis
    with paused ok' multi calls show ?thesis by (simp add: yield_in_force_def)
  next
    case asked
    have "op_available (pool_ops (object_ops w)) p' = op_available (pool_ops (object_ops w)) ?p" for w
      unfolding asked(1) by (rule object_pool.preempt.request_available[OF ok])
    with asked ok' multi calls old show ?thesis by (auto simp: yield_in_force_def)
  qed
qed

lemma serve_keeps_yield:
  assumes "serve w cfg sha cr s t" and "yield_in_force s"
  shows "yield_in_force t"
proof -
  have ok: "pool_ok object_settled (sv_pool s)" using assms(2) by (simp add: yield_in_force_def)
  then have idle: "\<not> p_switching (sv_pool s)" by (simp add: pool_ok_def)
  from request_effect[OF assms(1) ok] show ?thesis
  proof (elim disjE exE conjE)
    fix v l' calls report
    assume "poll v (sv_listener s) = (l', calls, report)" "sv_listener t = l'"
      "effects (pool_ops (object_ops w)) request_pause (sv_pool s) calls (sv_pool t)"
    with poll_keeps_yield[OF assms(2)]
    have "yield_in_force \<lparr>sv_pool = sv_pool t, sv_listener = sv_listener t\<rparr>" by blast
    then show ?thesis by (simp add: yield_in_force_def)
  next
    assume l: "sv_listener t = sv_listener s" and "request_changes w (sv_pool s) (sv_pool t)"
    then obtain p1 where sw: "switched w (sv_pool s) p1"
      and alike: "pool_alike (object_ops w) object_settled p1 (sv_pool t)"
      by (auto simp: request_changes_def)
    have p1: "p_mode p1 = p_mode (sv_pool s)"
        "p_pause_requested (sv_pool s) \<Longrightarrow> p1 = sv_pool s"
      using sw object_pool.switch_sel(1)[of w _ "sv_pool s"] switch_aborted[OF _ _ idle] assms(2)
      by (auto simp: switched_def yield_in_force_def) (metis fst_conv)
    have "op_available (pool_ops (object_ops w)) (sv_pool t) = op_available (pool_ops (object_ops w)) p1"
      by (rule served.alike_available[OF switched_ok[OF sw ok] alike])
    then have "op_available (pool_ops (object_ops w')) (sv_pool t) =
        op_available (pool_ops (object_ops w')) p1" for w'
      using pool_available_world by metis
    with p1 l alike assms(2) show ?thesis
      by (auto simp: yield_in_force_def pool_alike_def)
  qed
qed

lemma serves_keep_yield:
  "(serve w cfg sha cr)\<^sup>*\<^sup>* s t \<Longrightarrow> yield_in_force s \<Longrightarrow> yield_in_force t"
  by (induction rule: rtranclp_induct) (auto intro: serve_keeps_yield)

lemma yield_in_force_init:
  "pool_ok object_settled p \<Longrightarrow> multi_instance p \<Longrightarrow>
   yield_in_force \<lparr>sv_pool = p, sv_listener = listener_init True\<rparr>"
  by (simp add: yield_in_force_def listener_init_def)

section \<open>Shutdown\<close>

text \<open>A vLLM engine holds the GPU while it has a core or child processes.\<close>

definition holds_gpu :: "engine_object \<Rightarrow> bool" where
  "holds_gpu e =
     (case e of MockObj m \<Rightarrow> False | VllmObj v \<Rightarrow> e_engine v \<noteq> None \<or> e_child_pids v \<noteq> [])"

lemma settled_holds_gpu:
  "object_settled e \<Longrightarrow> op_state (object_ops w) e \<noteq> RUNNING \<Longrightarrow> \<not> holds_gpu e"
  by (cases e) (auto simp: holds_gpu_def vllm_settled_def eng_ok_def vllm_ops_def status_def)

lemma shutdown_engines:
  assumes "pool_ok object_settled p" and "e \<in> set (p_engines (fst (main_shutdown w p)))"
  shows "op_state (object_ops w) e = STOPPED" and "\<not> holds_gpu e"
proof -
  obtain d where d: "object_settled d" "e = fst (op_stop (object_ops w) d)"
    using assms by (auto simp: main_shutdown_def pool_stop_def pool_ok_def)
  then show st: "op_state (object_ops w) e = STOPPED"
    using object.stop_stopped by simp
  have "object_settled e" using d object.ok_stop by simp
  with st show "\<not> holds_gpu e" using settled_holds_gpu[of e w] by simp
qed

end
