(* ===== verification/Listener_Thread.thy ===== *)
theory Listener_Thread
  imports Listener
begin

text \<open>
  The background thread of \<open>SchedulerListener\<close>: \<open>start\<close>, \<open>stop\<close> and the loop of \<open>_run\<close>, which
  polls and then sleeps in slices of a tenth of a second, so that a stop is noticed soon.

  The thread is a program counter; a turn runs it to the next point at which \<open>_running\<close> is
  read, or over a poll.  Between its turns the main thread may stop it.
\<close>

section \<open>The thread\<close>

datatype thread_pc = LoopTop | InPoll | Sleep nat | Ended

record listener_thread =
  th_running :: bool
  th_pc :: "thread_pc option"          \<comment> \<open>\<open>None\<close> while \<open>_thread\<close> is\<close>
  th_interval :: rat
  th_listener :: listener

definition thread_init :: "bool \<Rightarrow> rat \<Rightarrow> listener_thread" where
  "thread_init preemptible interval =
     \<lparr>th_running = False, th_pc = None, th_interval = interval,
      th_listener = listener_init preemptible\<rparr>"

definition poll_interval :: rat where "poll_interval = 3"

definition listener_start :: "listener_thread \<Rightarrow> listener_thread" where
  "listener_start t = t\<lparr>th_running := True, th_pc := Some LoopTop\<rparr>"

text \<open>The join waits, for five seconds at most, and changes nothing.\<close>

definition listener_stop :: "listener_thread \<Rightarrow> listener_thread" where
  "listener_stop t = t\<lparr>th_running := False\<rparr>"

text \<open>\<open>int(interval * 10)\<close> of an interval that is not negative.\<close>

definition sleep_slices :: "rat \<Rightarrow> nat" where
  "sleep_slices interval = nat \<lfloor>interval * 10\<rfloor>"

definition thread_turn :: "poll_world \<Rightarrow> listener_thread \<Rightarrow> listener_thread \<times> engine_call list" where
  "thread_turn v t =
     (case th_pc t of
        None \<Rightarrow> (t, [])
      | Some LoopTop \<Rightarrow> (t\<lparr>th_pc := Some (if th_running t then InPoll else Ended)\<rparr>, [])
      | Some InPoll \<Rightarrow>
          (let (l, calls, report) = poll v (th_listener t) in
           (t\<lparr>th_listener := l, th_pc := Some (Sleep (sleep_slices (th_interval t)))\<rparr>, calls))
      | Some (Sleep n) \<Rightarrow>
          (t\<lparr>th_pc := Some (case n of 0 \<Rightarrow> LoopTop
             | Suc m \<Rightarrow> if th_running t then Sleep m else LoopTop)\<rparr>, [])
      | Some Ended \<Rightarrow> (t, []))"

datatype thread_label = Stop | Turn poll_world

fun thread_run :: "thread_label list \<Rightarrow> listener_thread \<Rightarrow> listener_thread \<times> engine_call list" where
  "thread_run [] t = (t, [])"
| "thread_run (Stop # ls) t = thread_run ls (listener_stop t)"
| "thread_run (Turn v # ls) t =
     (let (u, calls) = thread_turn v t; (s, more) = thread_run ls u in (s, calls @ more))"

text \<open>What the world answered to the polls of a run, in order.\<close>

fun polled :: "thread_label list \<Rightarrow> listener_thread \<Rightarrow> poll_world list" where
  "polled [] t = []"
| "polled (Stop # ls) t = polled ls (listener_stop t)"
| "polled (Turn v # ls) t =
     (if th_pc t = Some InPoll then [v] else []) @ polled ls (fst (thread_turn v t))"

section \<open>Its runs\<close>

lemma turn_no_poll:
  "th_pc t \<noteq> Some InPoll \<Longrightarrow>
     snd (thread_turn v t) = [] \<and> th_listener (fst (thread_turn v t)) = th_listener t"
  by (auto simp: thread_turn_def split: option.splits thread_pc.splits)

lemma turn_sel [simp]:
  "th_running (fst (thread_turn v t)) = th_running t"
  "th_interval (fst (thread_turn v t)) = th_interval t"
  by (auto simp: thread_turn_def case_prod_unfold Let_def split: option.split thread_pc.split)

lemma stop_sel [simp]:
  "\<not> th_running (listener_stop t)" "th_pc (listener_stop t) = th_pc t"
  "th_listener (listener_stop t) = th_listener t" "th_interval (listener_stop t) = th_interval t"
  by (simp_all add: listener_stop_def)

text \<open>A run of the thread is a run of polls, with whatever was answered when it polled.\<close>

lemma thread_run_polls:
  "thread_run ls t = (u, calls) \<Longrightarrow>
     polls (polled ls t) (th_listener t) = (th_listener u, calls)"
proof (induction ls t arbitrary: u calls rule: thread_run.induct)
  case (3 v ls t)
  obtain t1 cs where t1: "thread_turn v t = (t1, cs)" by (cases "thread_turn v t")
  obtain more where more: "thread_run ls t1 = (u, more)" "calls = cs @ more"
    using "3.prems" t1 by (auto split: prod.splits)
  from "3.IH"[OF t1[symmetric] refl more(1)] t1 more(2) turn_no_poll[of t v] show ?case
    by (cases "th_pc t = Some InPoll")
       (auto simp: thread_turn_def split: prod.splits)
qed simp_all

text \<open>Running, it polls within as many turns as it has slices, and two.\<close>

fun turns_left :: "thread_pc \<Rightarrow> nat" where
  "turns_left InPoll = 0"
| "turns_left LoopTop = 1"
| "turns_left (Sleep n) = n + 2"
| "turns_left Ended = 0"

lemma polls_in_time:
  assumes "th_running t" and "th_pc t = Some p" and "p \<noteq> Ended" and "turns_left p < length vs"
  shows "polled (map Turn vs) t \<noteq> []"
  using assms
proof (induction vs arbitrary: t p)
  case (Cons v vs)
  show ?case
  proof (cases "p = InPoll")
    case False
    let ?u = "fst (thread_turn v t)"
    obtain q where "th_pc ?u = Some q" "q \<noteq> Ended" "turns_left q < turns_left p"
      using Cons.prems False
      by (cases p) (auto simp: thread_turn_def split: nat.split)
    with Cons.IH[of ?u q] Cons.prems show ?thesis by simp
  qed (use Cons.prems in simp)
qed simp

text \<open>Stopped, it finishes the poll it is in and ends.\<close>

lemma ended_stays_ended:
  "th_pc t = Some Ended \<Longrightarrow> thread_run (map Turn vs) t = (t, [])"
  by (induction vs) (simp_all add: thread_turn_def)

lemma ended_polls_nothing: "th_pc t = Some Ended \<Longrightarrow> polled (map Turn vs) t = []"
  by (induction vs) (simp_all add: thread_turn_def)

lemma stopped_ends:
  assumes "\<not> th_running t" and "th_pc t = Some p" and "3 \<le> length vs"
  shows "th_pc (fst (thread_run (map Turn vs) t)) = Some Ended \<and>
    polled (map Turn vs) t = (if p = InPoll then [hd vs] else [])"
proof -
  obtain a b c ws where vs: "vs = a # b # c # ws"
    using assms(3) by (metis One_nat_def Suc_le_length_iff numeral_3_eq_3)
  show ?thesis
    using assms(1,2) unfolding vs
    by (cases p)
       (auto simp: thread_turn_def ended_stays_ended ended_polls_nothing case_prod_unfold Let_def
         split: nat.split)
qed

text \<open>It never sleeps longer than an interval, and ends only when it has been stopped.\<close>

definition thread_inv :: "listener_thread \<Rightarrow> bool" where
  "thread_inv t \<longleftrightarrow>
     (case th_pc t of None \<Rightarrow> False
      | Some Ended \<Rightarrow> \<not> th_running t
      | Some (Sleep n) \<Rightarrow> n \<le> sleep_slices (th_interval t)
      | Some _ \<Rightarrow> True)"

lemma thread_inv_start: "thread_inv (listener_start t)"
  by (simp add: thread_inv_def listener_start_def)

lemma thread_inv_stop: "thread_inv t \<Longrightarrow> thread_inv (listener_stop t)"
  by (auto simp: thread_inv_def split: option.splits thread_pc.splits)

lemma thread_inv_turn: "thread_inv t \<Longrightarrow> thread_inv (fst (thread_turn v t))"
  by (auto simp: thread_inv_def thread_turn_def case_prod_unfold Let_def
      split: option.splits thread_pc.splits nat.splits)

lemma thread_inv_run:
  "thread_inv t \<Longrightarrow> thread_inv (fst (thread_run ls t)) \<and>
     th_interval (fst (thread_run ls t)) = th_interval t"
proof (induction ls arbitrary: t)
  case (Cons a ls)
  then show ?case
    by (cases a) (simp_all add: thread_inv_stop thread_inv_turn case_prod_unfold Let_def)
qed simp

lemma running_polls:
  assumes "thread_inv t" and "th_running t" and "sleep_slices (th_interval t) + 2 < length vs"
  shows "polled (map Turn vs) t \<noteq> []"
proof -
  obtain p where p: "th_pc t = Some p" "p \<noteq> Ended" "turns_left p \<le> sleep_slices (th_interval t) + 2"
    using assms(1,2) by (auto simp: thread_inv_def split: option.splits thread_pc.splits)
  with assms(2,3) show ?thesis by (intro polls_in_time) auto
qed

end
