(* ===== verification/Scheduler.thy ===== *)
theory Scheduler
  imports Service Listener_Thread
begin

text \<open>
  \<open>SchedulerClient\<close> of \<open>scheduler_client/grpc_client.py\<close> and what \<open>main\<close> does with it: the
  first contact, which decides how the engines start, the listener, and the shutdown.  gRPC and
  the scheduler are the world's.
\<close>

section \<open>The client\<close>

record channel =
  ch_addr :: string
  ch_open :: bool

record scheduler_client =
  sc_addr :: string
  sc_channel :: "channel option"
  sc_stub :: bool                     \<comment> \<open>a stub exists; it uses the channel\<close>

text \<open>
  Whether \<open>grpc.insecure_channel\<close> and the stub can be built for an address, and what the
  scheduler there answers to the two calls: \<open>ScheduleResponse\<close> has the fields of
  \<open>GpuSchedule\<close>.
\<close>

record scheduler_world =
  gw_connect :: "string \<Rightarrow> unit result"
  gw_schedule :: "string \<Rightarrow> gpu_schedule result"
  gw_report :: "string \<Rightarrow> status_report \<Rightarrow> gpu_schedule result"

definition client_init :: "string \<Rightarrow> scheduler_client" where
  "client_init addr = \<lparr>sc_addr = addr, sc_channel = None, sc_stub = False\<rparr>"

definition connect :: "scheduler_world \<Rightarrow> scheduler_client \<Rightarrow> scheduler_client \<times> unit result" where
  "connect gw c =
     (case gw_connect gw (sc_addr c) of
        Inl x \<Rightarrow> (c, Inl x)
      | Inr _ \<Rightarrow>
          (c\<lparr>sc_channel := Some \<lparr>ch_addr = sc_addr c, ch_open = True\<rparr>, sc_stub := True\<rparr>, Inr ()))"

definition close :: "scheduler_client \<Rightarrow> scheduler_client" where
  "close c = c\<lparr>sc_channel := map_option (\<lambda>ch. ch\<lparr>ch_open := False\<rparr>) (sc_channel c)\<rparr>"

text \<open>A call without a stub, or over a channel that has been closed, raises.\<close>

definition rpc :: "(string \<Rightarrow> 'a result) \<Rightarrow> scheduler_client \<Rightarrow> 'a result" where
  "rpc f c =
     (case (sc_stub c, sc_channel c) of
        (True, Some ch) \<Rightarrow>
          if ch_open ch then f (ch_addr ch) else Inl (ValueError ''Cannot invoke RPC on closed channel!'')
      | _ \<Rightarrow> Inl (AttributeError ''NoneType has no attribute GetGpuSchedule''))"

definition get_gpu_schedule :: "scheduler_world \<Rightarrow> scheduler_client \<Rightarrow> gpu_schedule result" where
  "get_gpu_schedule gw c = rpc (gw_schedule gw) c"

definition report_status ::
  "scheduler_world \<Rightarrow> rat \<Rightarrow> engine_status \<Rightarrow> scheduler_client \<Rightarrow> gpu_schedule result" where
  "report_status gw time st c = rpc (\<lambda>addr. gw_report gw addr (report_of time st)) c"

text \<open>The stream of events that nothing in the service reads; \<open>events\<close> is what the scheduler sends.\<close>

definition subscribe_events ::
  "(string \<Rightarrow> gpu_schedule list result) \<Rightarrow> scheduler_client \<Rightarrow> gpu_schedule list result" where
  "subscribe_events events c = rpc events c"

text \<open>\<open>GpuSchedule.state_name\<close> raises on a number the protocol does not name.\<close>

definition gpu_state_names :: "(int \<times> string) list" where
  "gpu_state_names =
     [(0, ''GPU_STATE_UNKNOWN''), (1, ''GPU_STATE_AVAILABLE''), (2, ''GPU_STATE_YIELDING''),
      (3, ''GPU_STATE_WINDOW_POST''), (4, ''GPU_STATE_WINNING_POST'')]"

definition state_name :: "gpu_schedule \<Rightarrow> string result" where
  "state_name s =
     (case map_of gpu_state_names (gs_state s) of
        Some n \<Rightarrow> Inr n
      | None \<Rightarrow> Inl (ValueError ''Enum GpuState has no name defined for value''))"

section \<open>\<open>main\<close> and the scheduler\<close>

text \<open>
  The first contact: the schedule that was read, and \<open>gpu_available\<close>.  Every exception in the
  block is caught, that of \<open>state_name\<close> in the log message included, which comes after
  \<open>gpu_available\<close> has been assigned.
\<close>

definition first_contact ::
  "scheduler_world \<Rightarrow> string \<Rightarrow> scheduler_client \<times> gpu_schedule option" where
  "first_contact gw addr =
     (case connect gw (client_init addr) of
        (c, Inl _) \<Rightarrow> (c, None)
      | (c, Inr _) \<Rightarrow>
          (c, case get_gpu_schedule gw c of Inl _ \<Rightarrow> None | Inr s \<Rightarrow> Some s))"

text \<open>The pool has \<open>request_pause\<close>, so its listener preempts.\<close>

definition start_listener :: "scheduler_client \<Rightarrow> listener_thread option" where
  "start_listener c =
     (if sc_stub c then Some (listener_start (thread_init True poll_interval)) else None)"

definition main_boot ::
  "world \<Rightarrow> scheduler_world \<Rightarrow> string \<Rightarrow> engine_settings \<Rightarrow> multi_gpu_config \<Rightarrow> foc_client result \<Rightarrow>
   path \<Rightarrow> string \<Rightarrow> fs \<Rightarrow>
   (engine_object pool \<times> string \<times> fs \<times> scheduler_client \<times> listener_thread option) result" where
  "main_boot w gw addr s mg foc cache_dir model fs =
     (let (c, schedule) = first_contact gw addr in
      bind_result (main_startup w s mg foc cache_dir model schedule fs)
        (\<lambda>(p, path, fs'). Inr (p, path, fs', c, start_listener c)))"

text \<open>The \<open>finally\<close> of \<open>main\<close>: the thread is stopped and the channel closed, then the pool.\<close>

definition main_end ::
  "world \<Rightarrow> listener_thread option \<Rightarrow> scheduler_client \<Rightarrow> engine_object pool \<Rightarrow>
   listener_thread option \<times> scheduler_client \<times> engine_object pool \<times> unit result" where
  "main_end w l c p =
     (map_option listener_stop l, if l \<noteq> None then close c else c, main_shutdown w p)"

lemma first_contact_cases:
  assumes "first_contact gw addr = (c, schedule)"
  shows "schedule = (case gw_connect gw addr of Inl _ \<Rightarrow> None
      | Inr _ \<Rightarrow> (case gw_schedule gw addr of Inl _ \<Rightarrow> None | Inr s \<Rightarrow> Some s))"
    and "sc_stub c \<longleftrightarrow> gw_connect gw addr = Inr ()" and "sc_channel c \<noteq> None \<longleftrightarrow> sc_stub c"
  using assms
  by (auto simp: first_contact_def connect_def client_init_def get_gpu_schedule_def rpc_def
      split: sum.splits)

lemma main_bootE:
  assumes "main_boot w gw addr s mg foc cache_dir model fs = Inr (p, path, fs', c, l)"
  obtains schedule where "first_contact gw addr = (c, schedule)" "l = start_listener c"
    "main_startup w s mg foc cache_dir model schedule fs = Inr (p, path, fs')"
  using assms by (auto simp: main_boot_def bind_result_eq_Inr split: prod.splits)

text \<open>A poll reads the schedule through the client, and none is read once that is closed.\<close>

lemma main_end_closes:
  assumes "main_boot w gw addr s mg foc cache_dir model fs = Inr (p, path, fs', c, l)"
    and "main_end w l c p' = (l', c', q, r)"
  shows "case sc_channel c' of None \<Rightarrow> True | Some ch \<Rightarrow> \<not> ch_open ch"
    and "\<exists>x. get_gpu_schedule gw c' = Inl x"
proof -
  obtain schedule where con: "first_contact gw addr = (c, schedule)" "l = start_listener c"
    using assms(1) by (rule main_bootE)
  have c': "c' = (if sc_stub c then close c else c)" "sc_channel c \<noteq> None \<longleftrightarrow> sc_stub c"
    using assms(2) con first_contact_cases(3)[OF con(1)]
    by (auto simp: main_end_def start_listener_def)
  then show "case sc_channel c' of None \<Rightarrow> True | Some ch \<Rightarrow> \<not> ch_open ch"
    "\<exists>x. get_gpu_schedule gw c' = Inl x"
    by (auto simp: close_def get_gpu_schedule_def rpc_def split: option.split)
qed

end
