(* ===== verification/Config_Types.thy ===== *)
theory Config_Types
  imports Config
begin

text \<open>
  The types the configuration classes declare, as a type system for values of a YAML file: the
  type of a document whose settings have their declared types, and the proof that such a
  document loads, without an error, to a configuration whose fields do too.
\<close>

section \<open>Types\<close>

datatype ytype =
  TNull | TBool | TInt | TNum | TStr | TLit string | TOr ytype ytype | TListOf ytype
| TMapOf ytype | TRec "(string \<times> ytype) list"

text \<open>An \<open>int\<close> is accepted where a \<open>float\<close> is declared; a section may leave fields out.\<close>

fun has_type :: "ytype \<Rightarrow> yaml \<Rightarrow> bool" where
  "has_type TNull v = (v = YNull)"
| "has_type TBool v = (case v of YBool b \<Rightarrow> True | _ \<Rightarrow> False)"
| "has_type TInt v = (case v of YInt n \<Rightarrow> True | _ \<Rightarrow> False)"
| "has_type TNum v = (case v of YInt n \<Rightarrow> True | YFloat x \<Rightarrow> True | _ \<Rightarrow> False)"
| "has_type TStr v = (case v of YStr s \<Rightarrow> True | _ \<Rightarrow> False)"
| "has_type (TLit s) v = (v = YStr s)"
| "has_type (TOr t u) v = (has_type t v \<or> has_type u v)"
| "has_type (TListOf t) v = (case v of YList xs \<Rightarrow> list_all (has_type t) xs | _ \<Rightarrow> False)"
| "has_type (TMapOf t) v = (case v of YMap kvs \<Rightarrow> list_all (\<lambda>(k, x). has_type t x) kvs | _ \<Rightarrow> False)"
| "has_type (TRec fs) v =
     (case v of
        YMap kvs \<Rightarrow>
          list_all (\<lambda>(k, t). case map_of kvs k of None \<Rightarrow> True | Some x \<Rightarrow> has_type t x) fs
      | _ \<Rightarrow> False)"

lemma has_type_iff:
  "has_type TBool v \<longleftrightarrow> (\<exists>b. v = YBool b)" "has_type TInt v \<longleftrightarrow> (\<exists>n. v = YInt n)"
  "has_type TNum v \<longleftrightarrow> (\<exists>n. v = YInt n) \<or> (\<exists>x. v = YFloat x)" "has_type TStr v \<longleftrightarrow> (\<exists>s. v = YStr s)"
  "has_type (TListOf t) v \<longleftrightarrow> (\<exists>xs. v = YList xs \<and> list_all (has_type t) xs)"
  "has_type (TMapOf t) v \<longleftrightarrow> (\<exists>kvs. v = YMap kvs \<and> list_all (\<lambda>(k, x). has_type t x) kvs)"
  by (cases v; simp)+

definition gpu_type :: ytype where
  "gpu_type =
     TRec [(''mode'', TStr), (''gpu_count'', TOr (TLit ''auto'') TInt),
           (''device_ids'', TOr TNull (TListOf TInt)), (''mock_gpu_count'', TInt)]"

definition inference_type :: ytype where
  "inference_type =
     TRec [(''engine'', TStr), (''model'', TStr), (''gpu_memory_utilization'', TNum),
           (''max_model_len'', TInt), (''api_port'', TInt), (''tensor_parallel_size'', TInt),
           (''enforce_eager'', TBool), (''api_token'', TStr), (''max_tokens_limit'', TInt),
           (''multi_gpu'', gpu_type), (''multi_instance'', TRec [(''load_balancer'', TStr)])]"

text \<open>An entry of the real registry: one CID, a list, or both of them with a digest.\<close>

definition cid_type :: ytype where
  "cid_type = TOr TStr (TListOf TStr)"

definition entry_type :: ytype where
  "entry_type = TOr cid_type (TRec [(''cids'', cid_type), (''sha256'', TOr TNull TStr)])"

definition foc_type :: ytype where
  "foc_type =
     TRec [(''backend'', TStr),
           (''mock'', TRec [(''model_registry'', TMapOf TStr), (''simulate_delay'', TBool)]),
           (''real'', TRec [(''bridge_url'', TStr), (''piece_cid_registry'', TMapOf entry_type)])]"

definition document_type :: ytype where
  "document_type =
     TRec [(''mode'', TStr), (''inference'', inference_type), (''foc'', foc_type),
           (''grpc'', TRec [(''port'', TOr TInt TStr)]),
           (''logging'', TRec [(''level'', TStr), (''format'', TStr)])]"

section \<open>A typed document loads\<close>

lemma yget_typed:
  assumes "has_type (TRec fs) v" and "(k, t) \<in> set fs" and "has_type t dflt"
  shows "\<exists>x. yget k dflt v = Inr x \<and> has_type t x"
  using assms by (cases v) (auto simp: yget_def list_all_iff split: option.split)

lemma typed_field:
  "has_type (TRec fs) (YMap kvs) \<Longrightarrow> (k, t) \<in> set fs \<Longrightarrow> map_of kvs k = Some x \<Longrightarrow> has_type t x"
  by (auto simp: list_all_iff dest: bspec)

text \<open>The fields of the classes \<open>InferenceConfig\<close>, \<open>FOCConfig\<close> and \<open>AppConfig\<close>.\<close>

definition inference_typed :: "inference_config \<Rightarrow> bool" where
  "inference_typed c \<longleftrightarrow>
     has_type TStr (ic_engine c) \<and> has_type TStr (ic_model c) \<and>
     has_type TNum (ic_gpu_memory_utilization c) \<and> has_type TInt (ic_max_model_len c) \<and>
     has_type TInt (ic_api_port c) \<and> has_type TInt (ic_tensor_parallel_size c) \<and>
     has_type TBool (ic_enforce_eager c) \<and> has_type TStr (ic_api_token c) \<and>
     has_type TInt (ic_max_tokens_limit c) \<and> has_type TStr (mg_mode (ic_multi_gpu c)) \<and>
     has_type TStr (ic_load_balancer c)"

definition foc_typed :: "foc_config \<Rightarrow> bool" where
  "foc_typed c \<longleftrightarrow>
     has_type TStr (fo_backend c) \<and> has_type (TMapOf TStr) (fo_mock_model_registry c) \<and>
     has_type TBool (fo_simulate_delay c) \<and> has_type TStr (fo_real_bridge_url c) \<and>
     has_type (TMapOf entry_type) (fo_real_piece_cid_registry c)"

definition config_typed :: "app_config \<Rightarrow> bool" where
  "config_typed c \<longleftrightarrow>
     has_type TStr (cf_mode c) \<and> inference_typed (cf_inference c) \<and> foc_typed (cf_foc c) \<and>
     has_type TStr (cf_log_level c) \<and> has_type TStr (cf_log_format c)"

lemma ints_load: "list_all (has_type TInt) xs \<Longrightarrow> \<exists>ns. map_result py_int xs = Inr ns"
proof (induction xs)
  case (Cons x xs)
  then obtain n ns where "x = YInt n" "map_result py_int xs = Inr ns"
    by (auto split: yaml.splits)
  moreover have "py_int (YInt n) = Inr n" by (simp add: py_int_def)
  ultimately show ?case by simp
qed simp

lemma resolve_multi_gpu_typed:
  assumes "has_type (TRec fs) raw" and "(''multi_gpu'', gpu_type) \<in> set fs"
  shows "\<exists>mg. resolve_multi_gpu detected raw mode = Inr mg \<and> has_type TStr (mg_mode mg)"
proof -
  have "has_type gpu_type (YMap [])" by (simp add: gpu_type_def)
  from yget_typed[OF assms this] obtain mg where
    mg: "yget ''multi_gpu'' (YMap []) raw = Inr mg" "has_type gpu_type mg" by blast
  show ?thesis
  proof (cases "falsy mg")
    case True
    with mg(1) show ?thesis by (simp add: resolve_multi_gpu_def default_multi_gpu_def)
  next
    case False
    note field = yget_typed[OF mg(2)[unfolded gpu_type_def]]
    obtain m where m: "yget ''mode'' (YStr ''tensor_parallel'') mg = Inr m" "has_type TStr m"
      using field[of "''mode''" TStr "YStr ''tensor_parallel''"] by auto
    obtain c where c: "yget ''gpu_count'' (YStr ''auto'') mg = Inr c"
        "has_type (TOr (TLit ''auto'') TInt) c"
      using field[of "''gpu_count''" "TOr (TLit ''auto'') TInt" "YStr ''auto''"] by auto
    obtain ids where ids: "yget ''device_ids'' YNull mg = Inr ids"
        "has_type (TOr TNull (TListOf TInt)) ids"
      using field[of "''device_ids''" "TOr TNull (TListOf TInt)" YNull] by auto
    obtain k where k: "yget ''mock_gpu_count'' (YInt 4) mg = Inr (YInt k)"
      using field[of "''mock_gpu_count''" TInt "YInt 4"] unfolding has_type_iff by auto
    have "\<exists>n. resolve_count detected mode c (YInt k) = Inr (YInt n)"
      using c(2) by (auto simp: resolve_count_def py_int_def split: yaml.splits)
    then obtain n where n: "resolve_count detected mode c (YInt k) = Inr (YInt n)" by blast
    show ?thesis
    proof (cases "ids = YNull")
      case True
      with mg(1) False m c(1) ids(1) k n show ?thesis
        by (simp add: resolve_multi_gpu_def py_index_def)
    next
      case False
      with ids(2) obtain xs where xs: "ids = YList xs" "list_all (has_type TInt) xs"
        by (auto split: yaml.splits)
      obtain ns where "map_result py_int xs = Inr ns" using ints_load[OF xs(2)] by blast
      with mg(1) \<open>\<not> falsy mg\<close> m c(1) ids(1) k n xs(1) show ?thesis
        by (simp add: resolve_multi_gpu_def py_iter_def)
    qed
  qed
qed

lemma load_inference_typed:
  assumes "has_type inference_type raw" and "has_type TStr mode"
  shows "\<exists>c. load_inference env detected mode raw = Inr c \<and> inference_typed c"
proof -
  note field = yget_typed[OF assms(1)[unfolded inference_type_def]]
  obtain mg where "resolve_multi_gpu detected raw mode = Inr mg" "has_type TStr (mg_mode mg)"
    using resolve_multi_gpu_typed[OF assms(1)[unfolded inference_type_def]] by auto
  moreover obtain tp where "yget ''tensor_parallel_size'' (YInt 1) raw = Inr tp" "has_type TInt tp"
    using field[of "''tensor_parallel_size''" TInt "YInt 1"] by auto
  moreover obtain mi where "yget ''multi_instance'' (YMap []) raw = Inr mi"
      and mi: "has_type (TRec [(''load_balancer'', TStr)]) mi"
    using field[of "''multi_instance''" "TRec [(''load_balancer'', TStr)]" "YMap []"] by auto
  moreover have "\<exists>x. yget ''engine'' (YStr s) raw = Inr x \<and> has_type TStr x" for s
    using field[of "''engine''" TStr "YStr s"] by auto
  then obtain eng where "yget ''engine'' (YStr (if mode = YStr ''dev'' then ''mock'' else ''vllm'')) raw =
      Inr eng" "has_type TStr eng" by blast
  moreover obtain model where "yget ''model'' (YStr ''meta-llama/Llama-3-8B'') raw = Inr model"
      "has_type TStr model"
    using field[of "''model''" TStr "YStr ''meta-llama/Llama-3-8B''"] by auto
  moreover obtain util where "yget ''gpu_memory_utilization'' (YFloat (85 / 100)) raw = Inr util"
      "has_type TNum util"
    using field[of "''gpu_memory_utilization''" TNum "YFloat (85 / 100)"] by auto
  moreover obtain len where "yget ''max_model_len'' (YInt 4096) raw = Inr len" "has_type TInt len"
    using field[of "''max_model_len''" TInt "YInt 4096"] by auto
  moreover obtain port where "yget ''api_port'' (YInt 8000) raw = Inr port" "has_type TInt port"
    using field[of "''api_port''" TInt "YInt 8000"] by auto
  moreover obtain eager where "yget ''enforce_eager'' (YBool False) raw = Inr eager" "has_type TBool eager"
    using field[of "''enforce_eager''" TBool "YBool False"] by auto
  moreover obtain token where "yget ''api_token'' (YStr '''') raw = Inr token" "has_type TStr token"
    using field[of "''api_token''" TStr "YStr ''''"] by auto
  moreover obtain limit where "yget ''max_tokens_limit'' (YInt 0) raw = Inr limit" "has_type TInt limit"
    using field[of "''max_tokens_limit''" TInt "YInt 0"] by auto
  moreover obtain lb where "yget ''load_balancer'' (YStr ''round_robin'') mi = Inr lb" "has_type TStr lb"
    using yget_typed[OF mi, of "''load_balancer''" TStr "YStr ''round_robin''"] by auto
  ultimately show ?thesis
    by (simp add: load_inference_def inference_typed_def env_or_def split: option.split)
qed

lemma load_foc_typed:
  assumes "has_type foc_type raw"
  shows "\<exists>c. load_foc raw = Inr c \<and> foc_typed c"
proof -
  let ?mock = "TRec [(''model_registry'', TMapOf TStr), (''simulate_delay'', TBool)]"
    and ?real = "TRec [(''bridge_url'', TStr), (''piece_cid_registry'', TMapOf entry_type)]"
  note field = yget_typed[OF assms[unfolded foc_type_def]]
  obtain mock where "yget ''mock'' (YMap []) raw = Inr mock" and m: "has_type ?mock mock"
    using field[of "''mock''" ?mock "YMap []"] by auto
  moreover obtain real where "yget ''real'' (YMap []) raw = Inr real" and r: "has_type ?real real"
    using field[of "''real''" ?real "YMap []"] by auto
  moreover obtain backend where "yget ''backend'' (YStr ''mock'') raw = Inr backend" "has_type TStr backend"
    using field[of "''backend''" TStr "YStr ''mock''"] by auto
  moreover obtain registry where "yget ''model_registry'' (YMap []) mock = Inr registry"
      "has_type (TMapOf TStr) registry"
    using yget_typed[OF m, of "''model_registry''" "TMapOf TStr" "YMap []"] by auto
  moreover obtain delay where "yget ''simulate_delay'' (YBool False) mock = Inr delay" "has_type TBool delay"
    using yget_typed[OF m, of "''simulate_delay''" TBool "YBool False"] by auto
  moreover obtain url where "yget ''bridge_url'' (YStr ''http://127.0.0.1:3100'') real = Inr url"
      "has_type TStr url"
    using yget_typed[OF r, of "''bridge_url''" TStr "YStr ''http://127.0.0.1:3100''"] by auto
  moreover obtain cids where "yget ''piece_cid_registry'' (YMap []) real = Inr cids"
      "has_type (TMapOf entry_type) cids"
    using yget_typed[OF r, of "''piece_cid_registry''" "TMapOf entry_type" "YMap []"] by auto
  ultimately show ?thesis by (simp add: load_foc_def foc_typed_def del: has_type.simps)
qed

lemma load_config_typed:
  assumes "safe_load (interpolate_env_vars env content) = Inr raw" and "has_type document_type raw"
  shows "\<exists>c. load_config env safe_load show detected content = Inr c \<and> config_typed c"
proof -
  let ?grpc = "TRec [(''port'', TOr TInt TStr)]"
    and ?logging = "TRec [(''level'', TStr), (''format'', TStr)]"
  note field = yget_typed[OF assms(2)[unfolded document_type_def]]
  obtain mode where "yget ''mode'' (YStr ''dev'') raw = Inr mode" and mode: "has_type TStr mode"
    using field[of "''mode''" TStr "YStr ''dev''"] by auto
  moreover have "has_type inference_type (YMap [])" "has_type foc_type (YMap [])"
    by (simp_all add: inference_type_def foc_type_def)
  then obtain inf_raw foc_raw where "yget ''inference'' (YMap []) raw = Inr inf_raw"
      and inf_raw: "has_type inference_type inf_raw"
      and "yget ''foc'' (YMap []) raw = Inr foc_raw" and foc_raw: "has_type foc_type foc_raw"
    using field[of "''inference''" inference_type "YMap []"] field[of "''foc''" foc_type "YMap []"]
    by auto
  moreover obtain inf where "load_inference env detected mode inf_raw = Inr inf" "inference_typed inf"
    using load_inference_typed[OF inf_raw mode] by blast
  moreover obtain foc where "load_foc foc_raw = Inr foc" "foc_typed foc"
    using load_foc_typed[OF foc_raw] by blast
  moreover obtain grpc where "yget ''grpc'' (YMap []) raw = Inr grpc" and g: "has_type ?grpc grpc"
    using field[of "''grpc''" ?grpc "YMap []"] by auto
  moreover obtain port where "yget ''port'' (YInt 50051) grpc = Inr port"
    using yget_typed[OF g, of "''port''" "TOr TInt TStr" "YInt 50051"] by auto
  moreover obtain logging where "yget ''logging'' (YMap []) raw = Inr logging" and l: "has_type ?logging logging"
    using field[of "''logging''" ?logging "YMap []"] by auto
  moreover obtain level where "yget ''level'' (YStr ''info'') logging = Inr level" "has_type TStr level"
    using yget_typed[OF l, of "''level''" TStr "YStr ''info''"] by auto
  moreover obtain fmt where "yget ''format'' (YStr ''json'') logging = Inr fmt" "has_type TStr fmt"
    using yget_typed[OF l, of "''format''" TStr "YStr ''json''"] by auto
  ultimately show ?thesis
    using assms(1) by (simp add: load_config_def config_typed_def del: has_type.simps)
qed

end
