(* ===== verification/Main_Run.thy ===== *)
theory Main_Run
  imports Scheduler Config_Types
begin

text \<open>
  \<open>main\<close> from the text of the configuration file to the running service: the settings read at
  the types their classes declare, the logging, and the startup of \<open>Scheduler\<close> on them.
\<close>

section \<open>\<open>setup_logging\<close>\<close>

text \<open>
  \<open>s.upper()\<close> as far as a name looked up in the module \<open>logging\<close> can tell: no capital beyond
  ASCII is in one.
\<close>

definition upper_char :: "char \<Rightarrow> char" where
  "upper_char c =
     (let n = (of_char c :: nat) in if 97 \<le> n \<and> n \<le> 122 then char_of (n - 32) else c)"

definition upper :: "string \<Rightarrow> string" where
  "upper s = map upper_char s"

text \<open>
  The attributes of the module with a name in capitals: the levels, and two that are no level,
  which \<open>basicConfig\<close> refuses.
\<close>

definition logging_attributes :: "(string \<times> int result) list" where
  "logging_attributes =
     [(''CRITICAL'', Inr 50), (''FATAL'', Inr 50), (''ERROR'', Inr 40), (''WARNING'', Inr 30),
      (''WARN'', Inr 30), (''INFO'', Inr 20), (''DEBUG'', Inr 10), (''NOTSET'', Inr 0),
      (''BASIC_FORMAT'', Inl (ValueError ''Unknown level'')),
      (''_STYLES'', Inl (TypeError ''Level not an integer or a valid string''))]"

definition json_log_format :: string where
  "json_log_format =
     ''{\"time\":\"%(asctime)s\",\"level\":\"%(levelname)s\",\"logger\":\"%(name)s\",\"message\":\"%(message)s\"}''"

definition plain_log_format :: string where
  "plain_log_format = ''%(asctime)s [%(levelname)s] %(name)s: %(message)s''"

definition setup_logging :: "string \<Rightarrow> string \<Rightarrow> (int \<times> string) result" where
  "setup_logging level fmt =
     bind_result (case map_of logging_attributes (upper level) of None \<Rightarrow> Inr 20 | Some r \<Rightarrow> r)
       (\<lambda>n. Inr (n, if fmt = ''json'' then json_log_format else plain_log_format))"

section \<open>The settings\<close>

text \<open>The registries of the two FOC clients; \<open>None\<close> for a value that is not of its type.\<close>

definition as_str :: "yaml \<Rightarrow> string option" where
  "as_str v = (case v of YStr s \<Rightarrow> Some s | _ \<Rightarrow> None)"

definition read_map :: "(yaml \<Rightarrow> 'a option) \<Rightarrow> yaml \<Rightarrow> (string \<times> 'a) list option" where
  "read_map f v =
     (case v of
        YMap kvs \<Rightarrow> those (map (\<lambda>(k, x). map_option (Pair k) (f x)) kvs)
      | _ \<Rightarrow> None)"

definition read_cids :: "yaml \<Rightarrow> cids option" where
  "read_cids v =
     (case v of
        YStr s \<Rightarrow> Some (OneCid s)
      | YList xs \<Rightarrow> map_option ManyCids (those (map as_str xs))
      | _ \<Rightarrow> None)"

definition read_entry :: "yaml \<Rightarrow> cid_entry option" where
  "read_entry v =
     (case v of
        YMap kvs \<Rightarrow>
          (case map_of kvs ''sha256'' of
             None \<Rightarrow> map_option (\<lambda>c. Pinned c None)
               (read_cids (case map_of kvs ''cids'' of None \<Rightarrow> YList [] | Some c \<Rightarrow> c))
           | Some YNull \<Rightarrow> map_option (\<lambda>c. Pinned c None)
               (read_cids (case map_of kvs ''cids'' of None \<Rightarrow> YList [] | Some c \<Rightarrow> c))
           | Some (YStr h) \<Rightarrow> map_option (\<lambda>c. Pinned c (Some h))
               (read_cids (case map_of kvs ''cids'' of None \<Rightarrow> YList [] | Some c \<Rightarrow> c))
           | _ \<Rightarrow> None)
      | _ \<Rightarrow> map_option Plain (read_cids v))"

text \<open>What \<open>main\<close> takes from the configuration.\<close>

record run_settings =
  rs_log :: "string \<times> string"
  rs_engine :: engine_settings
  rs_gpu :: multi_gpu_config
  rs_backend :: string
  rs_mock_registry :: "(string \<times> string) list"
  rs_real_registry :: "(string \<times> cid_entry) list"
  rs_scheduler_addr :: string
  rs_model :: string
  rs_api :: api_config
  rs_api_port :: int

definition run_settings_of :: "app_config \<Rightarrow> run_settings option" where
  "run_settings_of c =
     (let i = cf_inference c; f = cf_foc c in
      case (settings_of i, read_map as_str (fo_mock_model_registry f),
            read_map read_entry (fo_real_piece_cid_registry f)) of
        (Some es, Some mock, Some cidreg) \<Rightarrow>
          (case (cf_log_level c, cf_log_format c, fo_backend f, ic_model i, ic_api_token i,
                 ic_max_tokens_limit i, ic_api_port i) of
             (YStr level, YStr fmt, YStr backend, YStr model, YStr token, YInt limit, YInt port) \<Rightarrow>
               Some \<lparr>rs_log = (level, fmt), rs_engine = es, rs_gpu = ic_multi_gpu i,
                     rs_backend = backend, rs_mock_registry = mock, rs_real_registry = cidreg,
                     rs_scheduler_addr = cf_scheduler_addr c, rs_model = model,
                     rs_api = \<lparr>ap_api_token = token, ap_max_tokens_limit = limit,
                               ap_has_manager = True\<rparr>,
                     rs_api_port = port\<rparr>
           | _ \<Rightarrow> None)
      | _ \<Rightarrow> None)"

text \<open>
  The bridge's answers and the model cache come from the world; \<open>None\<close> stands for a setting
  that is not of its declared type, which the code would carry along.
\<close>

definition main_run ::
  "world \<Rightarrow> scheduler_world \<Rightarrow> (string \<Rightarrow> string option) \<Rightarrow> (string \<Rightarrow> yaml result) \<Rightarrow>
   (yaml \<Rightarrow> string) \<Rightarrow> int \<Rightarrow> (string \<Rightarrow> (int \<times> bool option) option) \<Rightarrow>
   (string list \<Rightarrow> string \<Rightarrow> bridge_world) \<Rightarrow> path \<Rightarrow> string \<Rightarrow> fs \<Rightarrow>
   ((engine_object pool \<times> string \<times> fs \<times> scheduler_client \<times> listener_thread option) \<times>
    api_config) result option" where
  "main_run w gw env safe_load show detected resolve download cache_dir content fs =
     (case load_config env safe_load show detected content of
        Inl x \<Rightarrow> Some (Inl x)
      | Inr c \<Rightarrow>
          map_option
            (\<lambda>s. bind_result (setup_logging (fst (rs_log s)) (snd (rs_log s))) (\<lambda>_.
               bind_result
                 (main_boot w gw (rs_scheduler_addr s) (rs_engine s) (rs_gpu s)
                    (create_foc_client (rs_backend s) (rs_mock_registry s) (rs_real_registry s)
                       resolve download)
                    cache_dir (rs_model s) fs)
                 (\<lambda>started. Inr (started, rs_api s))))
            (run_settings_of c))"

section \<open>Typed settings can be read\<close>

lemma read_strs: "list_all (has_type TStr) xs \<Longrightarrow> \<exists>ss. those (map as_str xs) = Some ss"
  by (induction xs) (auto simp: as_str_def has_type_iff simp del: has_type.simps)

lemma read_map_typed:
  assumes "has_type (TMapOf t) v" and "\<And>x. has_type t x \<Longrightarrow> \<exists>y. f x = Some y"
  shows "\<exists>kvs. read_map f v = Some kvs"
proof -
  obtain kvs where v: "v = YMap kvs" "list_all (\<lambda>(k, x). has_type t x) kvs"
    using assms(1) unfolding has_type_iff by blast
  have "\<exists>ys. those (map (\<lambda>(k, x). map_option (Pair k) (f x)) kvs) = Some ys"
    using v(2)
  proof (induction kvs)
    case (Cons kx kvs)
    then obtain ys where "those (map (\<lambda>(k, x). map_option (Pair k) (f x)) kvs) = Some ys"
      by (auto simp: case_prod_unfold)
    moreover obtain y where "f (snd kx) = Some y"
      using assms(2)[of "snd kx"] Cons.prems by (auto simp: case_prod_unfold)
    ultimately show ?case by (simp add: case_prod_unfold)
  qed simp
  with v(1) show ?thesis by (simp add: read_map_def)
qed

lemma read_cids_typed: "has_type cid_type v \<Longrightarrow> \<exists>c. read_cids v = Some c"
  using read_strs by (auto simp: cid_type_def read_cids_def has_type_iff simp del: has_type.simps(5,8))

lemma read_entry_typed:
  assumes "has_type entry_type v"
  shows "\<exists>e. read_entry v = Some e"
proof (cases "has_type cid_type v")
  case True
  then have "\<nexists>kvs. v = YMap kvs" by (auto simp: cid_type_def)
  then have "read_entry v = map_option Plain (read_cids v)"
    by (simp add: read_entry_def split: yaml.split)
  with read_cids_typed[OF True] show ?thesis by auto
next
  case False
  let ?rec = "TRec [(''cids'', cid_type), (''sha256'', TOr TNull TStr)]"
  from assms False have rec: "has_type ?rec v" by (simp only: entry_type_def has_type.simps) simp
  then obtain kvs where v: "v = YMap kvs" by (cases v) simp_all
  note field = typed_field[OF rec[unfolded v]]
  have cids: "map_of kvs ''cids'' = Some c \<Longrightarrow> has_type cid_type c" for c
    by (rule field) simp_all
  have sha: "map_of kvs ''sha256'' = Some h \<Longrightarrow> h = YNull \<or> has_type TStr h" for h
    using field[of "''sha256''" "TOr TNull TStr" h] by simp
  have "has_type cid_type (YList [])" by (simp add: cid_type_def)
  with cids have "has_type cid_type (case map_of kvs ''cids'' of None \<Rightarrow> YList [] | Some c \<Rightarrow> c)"
    by (simp split: option.split)
  from read_cids_typed[OF this] obtain c where
    "read_cids (case map_of kvs ''cids'' of None \<Rightarrow> YList [] | Some c \<Rightarrow> c) = Some c" ..
  with sha show ?thesis
    unfolding v has_type_iff by (cases "map_of kvs ''sha256''") (auto simp: read_entry_def)
qed

lemma settings_of_typed: "inference_typed c \<Longrightarrow> \<exists>s. settings_of c = Some s"
  unfolding inference_typed_def has_type_iff by (auto simp: settings_of_def)

lemma run_settings_typed:
  assumes "config_typed c"
  shows "\<exists>s. run_settings_of c = Some s"
proof -
  let ?i = "cf_inference c" and ?f = "cf_foc c"
  note typed = assms[unfolded config_typed_def inference_typed_def foc_typed_def]
  obtain es where es: "settings_of ?i = Some es"
    using assms settings_of_typed by (auto simp: config_typed_def)
  have "\<exists>s. as_str x = Some s" if "has_type TStr x" for x
    using that unfolding has_type_iff by (auto simp: as_str_def)
  then obtain mock where mock: "read_map as_str (fo_mock_model_registry ?f) = Some mock"
    using typed read_map_typed[of TStr _ as_str] by blast
  obtain cidreg where cidreg: "read_map read_entry (fo_real_piece_cid_registry ?f) = Some cidreg"
    using typed read_map_typed[of entry_type _ read_entry] read_entry_typed by blast
  obtain level fmt backend model token limit port where
    "cf_log_level c = YStr level" "cf_log_format c = YStr fmt" "fo_backend ?f = YStr backend"
    "ic_model ?i = YStr model" "ic_api_token ?i = YStr token" "ic_max_tokens_limit ?i = YInt limit"
    "ic_api_port ?i = YInt port"
    using typed unfolding has_type_iff by blast
  with es mock cidreg show ?thesis
    unfolding run_settings_of_def Let_def by (simp only: prod.case option.case yaml.case) simp
qed

text \<open>The token of the environment wins over the file's, an empty one too.\<close>

lemma run_settings_token:
  assumes "load_config env safe_load show detected content = Inr c"
    and "run_settings_of c = Some s" and "env ''INFERENCE_API_TOKEN'' = Some t"
  shows "ap_api_token (rs_api s) = t"
proof -
  obtain mode raw where "load_inference env detected mode raw = Inr (cf_inference c)"
    using assms(1) by (auto simp: load_config_def bind_result_eq_Inr)
  from load_inference_token[OF this assms(3)] assms(2) show ?thesis
    by (auto simp: run_settings_of_def Let_def split: option.splits yaml.splits)
qed

text \<open>The engines can be built, if the names in the file are known.\<close>

lemma create_engine_pool_total:
  assumes "eg_engine s \<in> {''mock'', ''vllm''}"
    and "mg_mode mg \<in> {YStr ''tensor_parallel'', YStr ''multi_instance''}"
  shows "\<exists>p. create_engine_pool s mg = Inr p"
proof -
  have built: "\<exists>e. pool_engine s tp ds g = Inr e" for tp ds g
    using assms(1) by (auto simp: pool_engine_def create_engine_def)
  have "\<exists>es. map_result (\<lambda>d. pool_engine s 1 [d] d) ds = Inr es" for ds
  proof (induction ds)
    case (Cons d ds)
    obtain e es where "pool_engine s 1 [d] d = Inr e" "map_result (\<lambda>d. pool_engine s 1 [d] d) ds = Inr es"
      using built Cons.IH by blast
    then show ?case by simp
  qed simp
  then obtain es where "map_result (\<lambda>d. pool_engine s 1 [d] d) (mg_device_ids mg) = Inr es" by blast
  moreover obtain e where "pool_engine s (mg_gpu_count mg) (mg_device_ids mg) 0 = Inr e"
    using built by blast
  ultimately show ?thesis using assms(2) by (auto simp: create_engine_pool_def)
qed

end
