(* ===== verification/Spec2Isabelle.thy ===== *)
theory Spec2Isabelle
  imports Engine_Props Pool_Props Reply_Props Store_Props Main_Run
begin

text \<open>
  A verification development for the inference service of OpenModel
  (\<open>src/py-inference/src\<close>), a Python process that serves a language model on GPUs which
  belong to a Filecoin miner: whenever the scheduler says that mining needs the GPU, the
  service must give it up, and when it is free again, serve.

  \<^bold>\<open>Parts and how they interact.\<close>  \<open>main.py\<close> reads the configuration, builds an \<open>EnginePool\<close>
  of engines (\<open>VLLMEngine\<close>, or \<open>MockEngine\<close> in development), fetches the model's files
  through the \<open>ModelManager\<close>, and starts the engines, or leaves them paused when the GPU is
  taken.  From then on three parties act on the pool, all on one asyncio event loop: the
  \<open>SchedulerListener\<close>, which polls the scheduler and sends pauses and resumes; the API server,
  whose requests generate text and may first switch the model; and the engines' own recovery
  from a dead core.  Each answer carries a signed receipt.

  \<^bold>\<open>Theories.\<close>

  \<^item> \<open>Prelude\<close>: exceptions as a datatype, fallible code as \<open>py_exn + 'a\<close>, the string functions
    the code uses.  A string is a list of \<open>char\<close>, so its code points lie below 256; receipts
    use lists of code points instead.
  \<^item> \<open>Engine_Types\<close>, \<open>Engine\<close>: \<open>inference/engine.py\<close>.  The engine object is the record \<open>vllm\<close>;
    each coroutine is a program counter \<open>pc\<close> naming the suspension point it waits at; each
    uninterrupted section of a method is one definition named after the method
    (\<open>pause_entry\<close>, \<open>pause_drained\<close>, \<open>pause_teardown\<close>); \<open>step\<close> resumes one coroutine and
    \<open>fire\<close> interleaves coroutines and new calls.  \<open>Engine_Inv\<close> (lock and request count),
    \<open>Engine_Life\<close> (the lifecycle invariant and its automaton) and \<open>Engine_Progress\<close> (no
    deadlock, well-founded progress) hold its invariants, \<open>Engine_Runs\<close> concrete runs.
    \<open>Engine_Fleet\<close>: several engines with the process's children and environment in common, and
    the arguments each core is built with.
  \<^item> \<open>Engine_Ops\<close>, \<open>Engine_Solo\<close>: the abstract class \<open>InferenceEngine\<close> as the record
    \<open>engine_ops\<close>, its contract as the locale \<open>inference_engine\<close>, and its interpretation by
    \<open>MockEngine\<close> and by \<open>VLLMEngine\<close>, each of whose methods is driven alone to its end.
  \<^item> \<open>Generation\<close>, \<open>Polling\<close>: what \<open>generate\<close> and \<open>generate_stream\<close> return for a trace of the
    vLLM generator, and the loops that drain requests and wait for GPU memory.  \<open>Requests\<close>: the
    coroutine of a request ends as that says, and a request served alone as a function of the
    engine.
  \<^item> \<open>Pool\<close>, \<open>Pool_Route\<close>, \<open>Pool_Life\<close>, \<open>Pool_Loop\<close>: \<open>inference/engine_pool.py\<close> over any
    \<open>engine_ops\<close>: whole calls, routing and sessions, the contract the pool keeps in turn, and
    several calls interleaved turn by turn.  \<open>Pool_Generate\<close>: the generation it forwards, over
    the locale \<open>generating_engine\<close>.
  \<^item> \<open>Listener\<close>, \<open>Listener_Resume\<close>, \<open>Listener_Thread\<close>: \<open>scheduler_client/listener.py\<close> with
    the messages of \<open>grpc_client.py\<close>.  A poll yields the calls it sends; \<open>effects\<close> applies them
    to the engine.  The locales \<open>preemptible_engine\<close> and \<open>resumable_engine\<close> are what it needs of
    the engine to yield the GPU and to use it again.  The thread polls and sleeps in slices
    until it is stopped.
  \<^item> \<open>Receipt\<close>, \<open>Api_Server\<close>, \<open>Api_Laws\<close>: \<open>inference/receipt.py\<close> and
    \<open>inference/api_server.py\<close>.  \<open>Json\<close> and \<open>Wire\<close>: what the handlers write, that is
    \<open>json.dumps\<close>, base64, the receipt header, the responses and the frames of the event stream.
  \<^item> \<open>Model_Store\<close>, \<open>Store_Laws\<close>: \<open>model/\<close>, on a file tree with symbolic links; an installation
    is the list of the states the files go through.
  \<^item> \<open>Config\<close>, \<open>Config_Types\<close>: \<open>config.py\<close>, and the types its classes declare.  \<open>Wiring\<close>: the
    factories, and \<open>main\<close> up to the start of the engines.  \<open>Backend\<close>: the handlers' generation
    through the pool to an engine object.
  \<^item> \<open>Service\<close>: the polls and the requests acting on one pool, as the step relation \<open>serve\<close>, and
    the shutdown.  \<open>Scheduler\<close>: the client of \<open>grpc_client.py\<close>, and \<open>main\<close> from the first
    contact to its end.  \<open>Main_Run\<close>: \<open>main\<close> from the text of the configuration file on.
  \<^item> \<open>Engine_Props\<close>, \<open>Pool_Props\<close>, \<open>Reply_Props\<close>, \<open>Store_Props\<close> and this theory hold the
    properties, each with a concrete instance of it.

  \<^bold>\<open>What the theorems show.\<close>  The engine: a paused engine holds no GPU (C1), its states follow
  an automaton (C2), transitions exclude each other (C3, C4), calls end (C5, C6, C13, C14), a
  dead core is recovered (C7), engines do not touch each other's cores (C11), and what resume,
  switch and generation return (C8, C9, C12), a generation also under every interleaving (C19).
  The pool keeps the engine's contract (C15), honours a yield at once (C16), never reports
  RUNNING in a switch (C17), and routes as configured (C18, C21).  Listener and pool together
  serve nobody while the GPU is yielded (C23 to C25), whatever is requested meanwhile (C20, in
  multi-instance mode), all engines serve again when it is free (C40), and the listener polls
  until it is stopped (C26); the startup and the shutdown do so too (C27, C28), from any
  well-typed configuration file (C29).  Replies are
  receipted, streamed or not, for admitted requests and by the requested model (C30 to C33,
  C35), and what is sent determines the receipt and the events (C22, C36).  Model files are
  confined and installed atomically (C37, C39).
  C10, C34 and C38 exhibit runs in which the code does not do what it means to: a request that
  takes the GPU from mining in tensor-parallel mode, a pool split between two models, and a
  model id that deletes files.
  So do some lemmas: \<open>resume_never_sent\<close>, \<open>resume_lost_while_loading\<close>,
  \<open>soft_pause_can_strand_engine\<close>, \<open>failed_scan_kills_sibling\<close>, \<open>sessions_grow\<close>,
  \<open>short_key_file_blocks_signing\<close>, \<open>hardlink_escapes\<close>, \<open>chained_links_escape\<close>.

  \<^bold>\<open>Bounds and fuel.\<close>  A reload tries three times, as the code does.  The polling loops are
  \<open>partial_function\<close>s, \<open>None\<close> if they did not end, and C13 and C14 show that they end.
  Path resolution follows at most 40 links, as the operating system does.  \<open>drive\<close> runs a
  method to its end by recursion on the well-founded progress of C6.  Everything else is
  structural recursion.

  \<^bold>\<open>Simplifications.\<close>  A waiter may take the transition lock whenever it is free, where asyncio
  hands it over in order, so the model has more schedules than the code.  An await that does
  not suspend is not a program point.  Calls of the listener take effect in the order they
  were sent.  A hard link is a copy.  Exception messages are shortened where nothing reads
  them.  The system does not give a core's pid to another core.  Numbers of GPU memory and of
  time are rationals.  In \<open>Service\<close> a request is one step: nothing overlaps it, the engine is
  RUNNING whenever an output comes, and a recovery that gives up ends the process within it
  (\<open>Requests\<close> has the interleavings).

  \<^bold>\<open>Not modelled.\<close>  The vLLM core, nvidia-smi, the process table, Ed25519, SHA-256, YAML and tar
  parsing and the HTTP client are parameters or choices of the world.  FastAPI's routing and
  body parsing, uvicorn, log messages and argument parsing have no state of their own here.
  \<open>sidecar_pb2.py\<close> and \<open>sidecar_pb2_grpc.py\<close> are generated.  The scheduler (Go) and the FOC
  bridge (Node) are other programs.
\<close>

section \<open>The scheduler and the pool\<close>


definition mock_objects :: "engine_object pool" where
  "mock_objects =
     pool_init ''multi_instance'' [MockObj running_mock, MockObj running_mock] ''round_robin''"

lemma mock_objects_ok: "pool_ok object_settled mock_objects"
  by (simp add: pool_ok_def mock_objects_def pool_init_def mock_settled_def running_mock_def
      mock_start_def mock_init_def mock_set_def)

definition paused_objects :: "engine_object pool" where
  "paused_objects = fst (pool_pause (object_ops flaky_world) IMMEDIATE (request_pause mock_objects))"

lemma answer_sel [simp]:
  "\<exists>s. pw_schedule (answer st ok) = Some s \<and> gs_state s = st"
  "pw_pause_ok (answer st ok) = ok"
  by (simp_all add: answer_def)

lemma winning_poll:
  "polls [answer gpu_winning_post True] (listener_init True) =
     ((listener_init True)\<lparr>l_last_state := Some gpu_winning_post\<rparr>,
      [RequestPause, Pause IMMEDIATE True])"
  by (simp add: poll_defs answer_def heartbeat_def listener_init_def yield_states_def
      urgency_of_state_def gpu_states)

lemma paused_objects_effect:
  "effects (pool_ops (object_ops flaky_world)) request_pause mock_objects
     [RequestPause, Pause IMMEDIATE True] paused_objects"
proof -
  have "effect (pool_ops (object_ops flaky_world)) request_pause (request_pause mock_objects)
      (Pause IMMEDIATE True)
      (fst (op_pause (pool_ops (object_ops flaky_world)) IMMEDIATE (request_pause mock_objects)))"
    by (rule eff_pause)
  then show ?thesis
    unfolding paused_objects_def by (auto simp: pool_ops_def intro!: effs_cons effs_nil eff_request)
qed






section \<open>Requests during a yield\<close>


text \<open>A pool of paused vLLM engines, and a request for another model to the yielded pool.\<close>

definition sleeping :: "string \<Rightarrow> nat \<Rightarrow> engine_object pool" where
  "sleeping mode n =
     pool_init mode (replicate n (VllmObj (start_paused_engine ''m'' vllm0))) ''round_robin''"

lemma sleeping_paused:
  "fst (pool_pause (object_ops flaky_world) IMMEDIATE (request_pause (sleeping mode n))) =
     request_pause (sleeping mode n)"
proof -
  have "run_call flaky_world (CPause IMMEDIATE) (start_paused_engine ''m'' vllm0) =
      (start_paused_engine ''m'' vllm0, Inr ())"
    by (rule run_pause_other[OF settled_boot_paused]) (simp add: start_paused_engine_def)
  then show ?thesis
    by (simp add: pool_pause_def gather_def request_pause_def sleeping_def pool_init_def vllm_ops_def)
qed

definition yielded_service :: "string \<Rightarrow> nat \<Rightarrow> service" where
  "yielded_service mode n =
     \<lparr>sv_pool = request_pause (sleeping mode n),
      sv_listener = (listener_init True)\<lparr>l_last_state := Some gpu_winning_post\<rparr>\<rparr>"

lemma serve_winning_poll:
  "serve flaky_world cfg sha cr \<lparr>sv_pool = sleeping mode n, sv_listener = listener_init True\<rparr>
     (yielded_service mode n)"
proof -
  let ?ops = "pool_ops (object_ops flaky_world)"
  have poll: "poll (answer gpu_winning_post True) (listener_init True) =
      ((listener_init True)\<lparr>l_last_state := Some gpu_winning_post\<rparr>,
       [RequestPause, Pause IMMEDIATE True], None)"
    by (simp add: poll_defs answer_def heartbeat_def listener_init_def yield_states_def
      urgency_of_state_def gpu_states)
  have "effect ?ops request_pause (request_pause (sleeping mode n)) (Pause IMMEDIATE True)
      (fst (op_pause ?ops IMMEDIATE (request_pause (sleeping mode n))))"
    by (rule eff_pause)
  then have "effects ?ops request_pause (sleeping mode n) [RequestPause, Pause IMMEDIATE True]
      (request_pause (sleeping mode n))"
    by (auto simp: pool_ops_def sleeping_paused intro!: effs_cons effs_nil eff_request)
  from serve_poll[OF poll this] show ?thesis by (simp add: yielded_service_def)
qed

text \<open>The generator answers every prompt with one output and ends.\<close>

definition quiet :: backend where
  "quiet = \<lparr>bk_rid = ''r'', bk_events = (\<lambda>prompt s. one_output), bk_now = 0\<rparr>"

lemma quiet_events: "while_running one_output = one_output" "\<not> core_dies one_output"
    "generate True one_output = Inr plain_answer"
  by (simp_all add: one_output_def while_running_def generate_def result_of_def count_tokens_def
    extract_cached_tokens_def openai_finish_reason_def plain_answer_def)

lemma quiet_generate:
  assumes "vllm_settled v" and "is_available v"
  shows "object_generate w quiet prompt a (VllmObj v) =
    (VllmObj (v\<lparr>e_inflight := removeAll ''r'' (e_inflight v)\<rparr>), Inr plain_answer)"
  using assms by (simp add: object_generate_def vllm_generate_def quiet_def quiet_events serve_request_cases)

lemma quiet_answer:
  assumes "pool_ok object_settled q" and "op_available (pool_ops (object_ops flaky_world)) q"
    and "\<forall>e \<in> set (p_engines q). op_available (object_ops flaky_world) e \<longrightarrow>
      (\<exists>g. snd (object_generate flaky_world quiet (with_continuation pr (ca_continuation args)) args e) =
        Inr g)"
  shows "\<exists>c i p'. i < length (p_engines q) \<and>
    answer_completion (\<lambda>s. s) (wired flaky_world quiet plain_world) hdr body pr key args q = (p', Ok c) \<and>
    p_engines p' = (p_engines q)[i := fst (object_generate flaky_world quiet
      (with_continuation pr (ca_continuation args)) args (p_engines q ! i))]"
proof -
  let ?pr = "with_continuation pr (ca_continuation args)"
  let ?gen = "object_generate flaky_world quiet ?pr args"
  let ?run = "pool_generate (object_ops flaky_world) (bk_now quiet) key ?gen q"
  obtain i where i: "i < length (p_engines q)" "op_available (object_ops flaky_world) (p_engines q ! i)"
    "snd ?run = snd (?gen (p_engines q ! i))" "p_engines (fst ?run) = (p_engines q)[i := fst (?gen (p_engines q ! i))]"
    using served.forward_reaches[OF assms(1,2), of "bk_now quiet" key quiet ?pr args Inl]
    by (auto simp: pool_generate_def)
  obtain g where "snd ?run = Inr g" using assms(3) i(1-3) nth_mem by metis
  then have "\<exists>c. answer_completion (\<lambda>s. s) (wired flaky_world quiet plain_world) hdr body pr key args q =
      (fst ?run, Ok c)"
    by (simp add: answer_completion_def case_prod_unfold finish_completion_def receipt_maker_def
        build_receipt_def plain_world_def Let_def)
  with i show ?thesis by blast
qed

definition ask_sleeping :: "string \<Rightarrow> nat \<Rightarrow> engine_object pool \<times> completion reply" where
  "ask_sleeping mode n =
     chat_completions (pool_ops (object_ops flaky_world)) (\<lambda>s. s) token_config
       (wired flaky_world quiet plain_world) token_headers ''body'' [\<lparr>cm_role = ''user'', cm_content = ''hello''\<rparr>]
       (plain_args\<lparr>ca_model := ''n''\<rparr>) (request_pause (sleeping mode n))"

lemma serve_ask:
  assumes "snd (ask_sleeping mode n) \<noteq> Crash ProcessExit"
  shows "serve flaky_world token_config (\<lambda>s. s) plain_crypto (yielded_service mode n)
     \<lparr>sv_pool = fst (ask_sleeping mode n),
      sv_listener = (listener_init True)\<lparr>l_last_state := Some gpu_winning_post\<rparr>\<rparr>"
  unfolding yielded_service_def
  by (rule serve_chat[where bk = quiet and v = plain_world and hdr = token_headers and body = "''body''"
        and ms = "[\<lparr>cm_role = ''user'', cm_content = ''hello''\<rparr>]"
        and args = "plain_args\<lparr>ca_model := ''n''\<rparr>" and reply = "snd (ask_sleeping mode n)"])
     (use assms in \<open>simp_all add: ask_sleeping_def plain_world_def\<close>)

lemmas ask_defs =
  ask_sleeping_def chat_completions_def guard_request_def require_auth_def compare_digest_def
  token_config_def token_headers_def plain_args_def valid_args_def check_max_tokens_def
  ensure_model_loaded_def switch_locked_def plain_world_def pool_ops_def pool_current_model_def
  sleeping_def pool_init_def request_pause_def vllm_ops_def start_paused_engine_def
  current_model_def model_matches_def last_component_def cache_name_def rstrip_char_def
  backslash_def replace_char_def pool_is_available_def first_engine_def is_available_def

lemma ask_sleeping_aborted:
  "ask_sleeping ''multi_instance'' 2 =
     (request_pause (sleeping ''multi_instance'' 2), yielded PAUSED False)"
proof -
  have "pool_switch_model (object_ops flaky_world) ''n'' (request_pause (sleeping ''multi_instance'' 2)) =
      (request_pause (sleeping ''multi_instance'' 2), Inr ())"
    by (rule switch_aborted) (simp_all add: sleeping_def request_pause_def pool_init_def)
  then show ?thesis
    by (simp add: ask_defs numeral_2_eq_2 pool_status_def status_def aggregate_state_def Let_def)
qed


lemma ask_takes_gpu:
  "\<exists>c p' v. ask_sleeping ''tensor_parallel'' 1 = (p', Ok c) \<and> p_engines p' = [VllmObj v] \<and>
    holds_gpu (VllmObj v) \<and> is_available v"
proof -
  let ?e = "start_paused_engine ''m'' vllm0"
  let ?v = "core_loaded (7, Some [], Some [41]) (switch_down ''n'' ?e)"
  have switch: "run_call flaky_world (CSwitch ''n'') ?e = (?v, Inr ())"
    using run_switch_up[OF settled_boot_paused, of "''n''" flaky_world]
    by (simp add: start_paused_engine_def reload_attempt_def flaky_world_def)
  have up: "e_state ?v = RUNNING" "e_accepting ?v" "e_engine ?v = Some 7"
    by (simp_all add: core_loaded_def switch_down_def start_paused_engine_def vllm0_def vllm_init_def)
  define q where "q = (request_pause (sleeping ''tensor_parallel'' 1))\<lparr>p_engines := [VllmObj ?v]\<rparr>"
  have guard: "guard_request (pool_ops (object_ops flaky_world)) token_config
      (wired flaky_world quiet plain_world) token_headers (plain_args\<lparr>ca_model := ''n''\<rparr>)
      (request_pause (sleeping ''tensor_parallel'' 1)) = (q, Inr () :: completion reply + unit)"
    using switch up by (simp add: q_def ask_defs pool_switch_model_def gather_def)
  have settled: "vllm_settled ?v" "is_available ?v"
    using vllm.ok_switch[OF settled_boot_paused, of flaky_world "''n''"] switch up
    by (simp_all add: vllm_ops_def is_available_def)
  let ?prompt = "chat_prompt [\<lparr>cm_role = ''user'', cm_content = ''hello''\<rparr>]"
    and ?args = "plain_args\<lparr>ca_model := ''n''\<rparr>"
    and ?key = "engine_session_key (\<lambda>s. s) token_headers
      (Some [\<lparr>cm_role = ''user'', cm_content = ''hello''\<rparr>]) None"
  have "ask_sleeping ''tensor_parallel'' 1 = answer_completion (\<lambda>s. s) (wired flaky_world quiet plain_world)
      token_headers ''body'' ?prompt ?key ?args q"
    by (simp only: ask_sleeping_def chat_completions_def guard prod.case sum.case)
  moreover have "pool_ok object_settled q" "op_available (pool_ops (object_ops flaky_world)) q"
    using settled by (simp_all add: q_def pool_ok_def sleeping_def pool_init_def request_pause_def pool_ops_def
      pool_is_available_def first_engine_def vllm_ops_def)
  from quiet_answer[OF this, of ?prompt ?args] quiet_generate[OF settled]
  have "\<exists>c p'. answer_completion (\<lambda>s. s) (wired flaky_world quiet plain_world)
        token_headers ''body'' ?prompt ?key ?args q = (p', Ok c) \<and>
      p_engines p' = [VllmObj (?v\<lparr>e_inflight := removeAll ''r'' (e_inflight ?v)\<rparr>)]"
    by (fastforce simp: q_def)
  ultimately obtain c p' where ask: "ask_sleeping ''tensor_parallel'' 1 = (p', Ok c)"
    "p_engines p' = [VllmObj (?v\<lparr>e_inflight := removeAll ''r'' (e_inflight ?v)\<rparr>)]"
    by metis
  with up show ?thesis by (fastforce simp: holds_gpu_def is_available_def)
qed

text \<open>
  C10. In tensor-parallel mode a request takes the GPU from mining: the scheduler has reported
  WINNING_POST, the pool has been paused and the listener holds the yield as applied; one request for
  another model then loads it, and the engine runs and holds the GPU while the yield lasts.
\<close>

theorem request_takes_gpu_from_mining:
  "\<exists>t v. (serve flaky_world token_config (\<lambda>s. s) plain_crypto)\<^sup>*\<^sup>*
       \<lparr>sv_pool = sleeping ''tensor_parallel'' 1, sv_listener = listener_init True\<rparr> t \<and>
     l_last_state (sv_listener t) = Some gpu_winning_post \<and>
     p_engines (sv_pool t) = [VllmObj v] \<and> holds_gpu (VllmObj v) \<and> is_available v \<and>
     (\<exists>c. snd (ask_sleeping ''tensor_parallel'' 1) = Ok c)"
proof -
  obtain c p' v where ask: "ask_sleeping ''tensor_parallel'' 1 = (p', Ok c)"
    and up: "p_engines p' = [VllmObj v]" "holds_gpu (VllmObj v)" "is_available v"
    using ask_takes_gpu by blast
  let ?t = "\<lparr>sv_pool = p', sv_listener = (listener_init True)\<lparr>l_last_state := Some gpu_winning_post\<rparr>\<rparr>"
  have "serve flaky_world token_config (\<lambda>s. s) plain_crypto (yielded_service ''tensor_parallel'' 1) ?t"
    using serve_ask[of "''tensor_parallel''" 1] unfolding ask by simp
  with serve_winning_poll
  have "(serve flaky_world token_config (\<lambda>s. s) plain_crypto)\<^sup>*\<^sup>*
      \<lparr>sv_pool = sleeping ''tensor_parallel'' 1, sv_listener = listener_init True\<rparr> ?t"
    by (meson converse_rtranclp_into_rtranclp r_into_rtranclp)
  with ask up show ?thesis
    by (intro exI[of _ ?t] exI[of _ v]) simp
qed


definition lost :: "rat \<Rightarrow> poll_world" where
  "lost now = (answer gpu_available True)\<lparr>pw_schedule := None, pw_now := now\<rparr>"


text \<open>
  C26. The listener's thread polls until it is stopped.  A run of it is a run of polls, so what
  holds of polls holds of the thread; while it runs it polls again within 33 turns (the thirty
  slices of its interval, and three); and once it is stopped, at whatever moment, it ends
  within three turns and completes at most the poll it was in.
\<close>

theorem listener_thread_polls_until_stopped:
  assumes "thread_run ls (listener_start (thread_init pre poll_interval)) = (t, calls)"
  shows "polls (polled ls (listener_start (thread_init pre poll_interval))) (listener_init pre) =
      (th_listener t, calls) \<and>
    (th_running t \<longrightarrow> (\<forall>vs. 33 \<le> length vs \<longrightarrow> polled (map Turn vs) t \<noteq> [])) \<and>
    (\<forall>vs. 3 \<le> length vs \<longrightarrow>
      th_pc (fst (thread_run (map Turn vs) (listener_stop t))) = Some Ended \<and>
      polled (map Turn vs) (listener_stop t) = (if th_pc t = Some InPoll then [hd vs] else []))"
proof -
  have inv: "thread_inv t" and slices: "sleep_slices (th_interval t) = 30"
    using thread_inv_run[OF thread_inv_start, of ls "thread_init pre poll_interval"] assms
    by (simp_all add: listener_start_def thread_init_def poll_interval_def sleep_slices_def)
  then obtain p where p: "th_pc t = Some p" by (auto simp: thread_inv_def split: option.splits)
  have "polls (polled ls (listener_start (thread_init pre poll_interval))) (listener_init pre) =
      (th_listener t, calls)"
    using thread_run_polls[OF assms] by (simp add: listener_start_def thread_init_def)
  moreover have "polled (map Turn vs) t \<noteq> []" if "th_running t" "33 \<le> length vs" for vs
    using running_polls[OF inv that(1)] that(2) slices by simp
  moreover have "th_pc (fst (thread_run (map Turn vs) (listener_stop t))) = Some Ended \<and>
      polled (map Turn vs) (listener_stop t) = (if th_pc t = Some InPoll then [hd vs] else [])"
    if "3 \<le> length vs" for vs
    using stopped_ends[OF stop_sel(1), of t p vs] p that by simp
  ultimately show ?thesis by blast
qed

theorem listener_thread_polls_until_stopped_witness:
  "snd (thread_run [Turn (lost 0), Turn (answer gpu_winning_post True), Stop, Turn (lost 0)]
      (listener_start (thread_init True poll_interval))) = [RequestPause, Pause IMMEDIATE True]"
proof -
  let ?ls = "[Turn (lost 0), Turn (answer gpu_winning_post True), Stop, Turn (lost 0)]"
    and ?t = "listener_start (thread_init True poll_interval)"
  obtain t calls where run: "thread_run ?ls ?t = (t, calls)" by (cases "thread_run ?ls ?t")
  have "polled ?ls ?t = [answer gpu_winning_post True]"
    by (simp add: thread_turn_def listener_start_def thread_init_def case_prod_unfold Let_def)
  with listener_thread_polls_until_stopped[OF run] winning_poll have "calls = [RequestPause, Pause IMMEDIATE True]"
    by (simp del: polls.simps)
  with run show ?thesis by simp
qed

text \<open>
  A resume can stay unsent for good: a pause that takes effect without being acknowledged in
  time leaves the listener at AVAILABLE, so when the scheduler is back there it sends nothing,
  and the pool stays down however long the GPU is free.
\<close>

lemma resume_never_sent:
  "\<exists>p'. \<forall>n. effects (pool_ops mock_ops) request_pause mock_pair
      (snd (polls (answer gpu_available True # answer gpu_yielding False #
         replicate n (answer gpu_available True)) (listener_init True))) p' \<and>
    \<not> op_available (pool_ops mock_ops) p'"
proof -
  let ?p = "fst (pool_pause mock_ops NORMAL (request_pause mock_pair))"
  have "effect (pool_ops mock_ops) request_pause (request_pause mock_pair) (Pause NORMAL False)
      (fst (op_pause (pool_ops mock_ops) NORMAL (request_pause mock_pair)))"
    by (rule eff_pause)
  then have "effects (pool_ops mock_ops) request_pause mock_pair
      [Resume, RequestPause, Pause NORMAL False] ?p"
    by (auto simp: pool_ops_def intro!: effs_cons effs_nil eff_request eff_no_resume)
  moreover have "pool_ok mock_settled (request_pause mock_pair)"
    by (simp add: pool_ok_def request_pause_def mock_settled_def mock_pair_defs)
  then have "\<not> op_available (pool_ops mock_ops) (fst (op_pause (pool_ops mock_ops) NORMAL
      (request_pause mock_pair)))"
    by (rule mock_pool.pool.pause_unavailable)
  ultimately show ?thesis
    unfolding missed_resume by (intro exI[of _ ?p]) (simp add: pool_ops_def)
qed

section \<open>From the configuration to a running service\<close>


definition mock_settings :: engine_settings where
  "mock_settings =
     \<lparr>eg_engine = ''mock'', eg_gpu_memory_utilization = 1 / 2, eg_max_model_len = 10,
      eg_enforce_eager = False, eg_load_balancer = ''least_busy''\<rparr>"

definition two_gpus :: multi_gpu_config where
  "two_gpus =
     \<lparr>mg_mode = YStr ''multi_instance'', mg_gpu_count = 2, mg_device_ids = [3, 5]\<rparr>"

lemma two_gpus_startup:
  "\<exists>p fs'. main_startup flaky_world mock_settings two_gpus (Inr (mock_foc [])) [''models''] ''m'' None [] =
     Inr (p, ''m'', fs')"
  by (simp add: main_startup_def create_engine_pool_def two_gpus_def pool_engine_def
      create_engine_def mock_settings_def ensure_model_def mock_foc_def is_model_complete_def
      cached_path_def raw_cached_path_def path_parts_def os_resolve_def up_def startup_def
      exists_at_def Let_def)

definition unreachable :: scheduler_world where
  "unreachable =
     \<lparr>gw_connect = (\<lambda>addr. Inr ()), gw_schedule = (\<lambda>addr. Inl ConnectError),
      gw_report = (\<lambda>addr st. Inl ConnectError)\<rparr>"




text \<open>
  C29. A well-typed configuration file works: it loads without an error to a configuration
  whose fields have the types their classes declare, \<open>main\<close> can read all its settings, the
  requests need the token of the environment where one is set, and the engines can be built
  when the engine type and the GPU mode are known ones.
\<close>

theorem typed_configuration_starts:
  assumes "safe_load (interpolate_env_vars env content) = Inr raw" and "has_type document_type raw"
  shows "\<exists>c s. load_config env safe_load show detected content = Inr c \<and> config_typed c \<and>
    run_settings_of c = Some s \<and>
    (\<forall>t. env ''INFERENCE_API_TOKEN'' = Some t \<longrightarrow> ap_api_token (rs_api s) = t) \<and>
    (eg_engine (rs_engine s) \<in> {''mock'', ''vllm''} \<and>
     mg_mode (rs_gpu s) \<in> {YStr ''tensor_parallel'', YStr ''multi_instance''} \<longrightarrow>
       (\<exists>p. create_engine_pool (rs_engine s) (rs_gpu s) = Inr p)) \<and>
    (\<exists>r. main_run w gw env safe_load show detected resolve download cache_dir content fs = Some r \<and>
      (\<forall>started api. r = Inr (started, api) \<longrightarrow> api = rs_api s))"
proof -
  obtain c where c: "load_config env safe_load show detected content = Inr c" "config_typed c"
    using load_config_typed[of safe_load env content, OF assms] by blast
  obtain s where s: "run_settings_of c = Some s" using run_settings_typed[OF c(2)] by blast
  have "\<exists>r. main_run w gw env safe_load show detected resolve download cache_dir content fs = Some r \<and>
      (\<forall>started api. r = Inr (started, api) \<longrightarrow> api = rs_api s)"
    by (simp add: main_run_def c(1) s bind_result_eq_Inr)
  with c s run_settings_token[OF c(1) s] create_engine_pool_total show ?thesis by blast
qed

definition sample_document :: yaml where
  "sample_document =
     YMap [(''mode'', YStr ''prod''),
       (''inference'', YMap [(''engine'', YStr ''mock''), (''multi_gpu'', YMap
          [(''mode'', YStr ''multi_instance''), (''device_ids'', YList [YInt 3, YInt 5])])]),
       (''foc'', YMap [(''backend'', YStr ''real''), (''real'', YMap [(''piece_cid_registry'',
          YMap [(''m'', YMap [(''cids'', YList [YStr ''c''])]), (''n'', YStr ''d'')])])])]"

theorem typed_configuration_starts_witness:
  "\<exists>c s. load_config (\<lambda>v. if v = ''INFERENCE_API_TOKEN'' then Some ''t'' else None)
      (\<lambda>_. Inr sample_document) (\<lambda>_. []) 0 ''mode: prod'' = Inr c \<and>
     run_settings_of c = Some s \<and> ap_api_token (rs_api s) = ''t''"
proof -
  let ?env = "\<lambda>v. if v = ''INFERENCE_API_TOKEN'' then Some ''t'' else None"
  have "has_type document_type sample_document"
    by (simp add: sample_document_def document_type_def inference_type_def gpu_type_def foc_type_def
      entry_type_def cid_type_def)
  from typed_configuration_starts[of "\<lambda>_. Inr sample_document" ?env "''mode: prod''" _ "\<lambda>_. []" 0
      flaky_world unreachable "\<lambda>_. None" "\<lambda>_ _. bridge_with good_members" "[]" "[]", OF refl this]
  show ?thesis by (elim exE conjE) (rule exI, rule exI, auto)
qed

section \<open>The model that answers\<close>


definition ask_for :: "string \<Rightarrow> engine_object pool \<times> completion reply" where
  "ask_for model =
     chat_completions (pool_ops (object_ops flaky_world)) (\<lambda>s. s) token_config
       (wired flaky_world quiet plain_world) token_headers ''body'' [\<lparr>cm_role = ''user'', cm_content = ''hello''\<rparr>]
       (plain_args\<lparr>ca_model := model\<rparr>) mock_objects"

lemma asked_Ok: "\<exists>p c. ask_for ''n'' = (p, Ok c)"
proof -
  let ?e = "\<lparr>m_state = RUNNING, m_model = ''n'', m_active_requests = 0, m_latency = 0, m_gpu_id = 0\<rparr>"
  let ?q = "pool_init ''multi_instance'' [MockObj ?e, MockObj ?e] ''round_robin''"
  have switch: "pool_switch_model (object_ops flaky_world) ''n'' mock_objects = (?q, Inr ())"
    by (simp add: pool_switch_model_def run_loop.simps loop_turn_def mock_objects_def
      pool_init_def running_mock_def mock_ops_def mock_switch_model_def mock_pause_def
      mock_resume_def mock_set_def mock_start_def mock_init_def Let_def)
  have guard: "guard_request (pool_ops (object_ops flaky_world)) token_config
      (wired flaky_world quiet plain_world) token_headers
      (plain_args\<lparr>ca_model := ''n''\<rparr>) mock_objects = (?q, Inr () :: completion reply + unit)"
    by (simp add: guard_request_def require_auth_def compare_digest_def token_config_def
      token_headers_def valid_args_def check_max_tokens_def plain_args_def
      ensure_model_loaded_def switch_locked_def plain_world_def pool_ops_def switch pool_is_available_def
      pool_current_model_def)
     (simp add: mock_objects_def pool_init_def running_mock_def mock_start_def mock_init_def
       mock_set_def model_matches_def last_component_def cache_name_def rstrip_char_def
       backslash_def replace_char_def mock_ops_def mock_is_available_def)
  have "pool_ok object_settled ?q" "op_available (pool_ops (object_ops flaky_world)) ?q"
    by (simp_all add: pool_ok_def pool_init_def mock_settled_def pool_ops_def pool_is_available_def
      mock_ops_def mock_is_available_def)
  moreover have "\<exists>g. snd (object_generate flaky_world quiet pr a e) = Inr g"
    if "e \<in> set (p_engines ?q)" for e pr a
    using that by (auto simp: pool_init_def object_generate_def mock_generate_def mock_is_available_def Let_def)
  ultimately have "\<exists>c i p'. i < length (p_engines ?q) \<and>
      answer_completion (\<lambda>s. s) (wired flaky_world quiet plain_world) hdr body pr key a ?q = (p', Ok c) \<and>
      p_engines p' = (p_engines ?q)[i := fst (object_generate flaky_world quiet
        (with_continuation pr (ca_continuation a)) a (p_engines ?q ! i))]" for hdr body pr key a
    by (intro quiet_answer) blast+
  then show ?thesis
    unfolding ask_for_def chat_completions_def guard prod.case sum.case by blast
qed



end
